theory Spec2Isabelle
  imports Complex_Main "HOL-Library.Log_Nat" "HOL-Library.AList" "HOL-Library.Word"
begin

section \<open>Python values and built-in conversions\<close>

datatype error =
    IndexError | KeyError | ValueError | TypeError | OverflowError | AttributeError
  | StopIteration | CsvError | RequestException | YdbError

definition is_digit :: "char \<Rightarrow> bool" where
  "is_digit c = (48 \<le> (of_char c :: nat) \<and> (of_char c :: nat) \<le> 57)"

definition digit_val :: "char \<Rightarrow> nat" where
  "digit_val c = of_char c - 48"

fun digits_val :: "nat \<Rightarrow> string \<Rightarrow> nat" where
  "digits_val acc [] = acc"
| "digits_val acc (c # cs) = digits_val (10 * acc + digit_val c) cs"

fun string_of_nat :: "nat \<Rightarrow> string" where
  "string_of_nat n =
     (if n < 10 then [char_of (48 + n)]
      else string_of_nat (n div 10) @ [char_of (48 + n mod 10)])"

declare string_of_nat.simps [simp del]

definition py_isspace :: "char \<Rightarrow> bool" where
  "py_isspace c = (of_char c \<in> {9, 10, 11, 12, 13, 28, 29, 30, 31, 32, 133, 160 :: nat})"

definition strip :: "string \<Rightarrow> string" where
  "strip s = rev (dropWhile py_isspace (rev (dropWhile py_isspace s)))"

definition num_space :: "char \<Rightarrow> bool" where
  "num_space c = (of_char c \<in> {9, 10, 11, 12, 13, 32, 133, 160 :: nat})"

definition num_strip :: "string \<Rightarrow> string" where
  "num_strip s = rev (dropWhile num_space (rev (dropWhile num_space s)))"

fun drop_underscores :: "char \<Rightarrow> string \<Rightarrow> string option" where
  "drop_underscores prev [] = (if prev = CHR ''_'' then None else Some [])"
| "drop_underscores prev (c # cs) =
     (if c = CHR ''_'' then
        (if is_digit prev then drop_underscores c cs else None)
      else if prev = CHR ''_'' \<and> \<not> is_digit c then None
      else map_option ((#) c) (drop_underscores c cs))"

definition split_sign :: "string \<Rightarrow> bool \<times> string" where
  "split_sign s =
     (case s of
        c # cs \<Rightarrow> if c = CHR ''-'' then (True, cs) else if c = CHR ''+'' then (False, cs) else (False, s)
      | [] \<Rightarrow> (False, []))"

definition int_of_str :: "string \<Rightarrow> error + int" where
  "int_of_str s =
     (case drop_underscores (CHR 0x00) (num_strip s) of
        None \<Rightarrow> Inl ValueError
      | Some t \<Rightarrow>
          (let (neg, ds) = split_sign t in
           if ds \<noteq> [] \<and> list_all is_digit ds
           then Inr (if neg then - int (digits_val 0 ds) else int (digits_val 0 ds))
           else Inl ValueError))"

subsection \<open>Floats\<close>

datatype pyfloat = Fin rat | NegZero | PosInf | NegInf | NaN

definition pow2 :: "int \<Rightarrow> rat" where
  "pow2 e = (if 0 \<le> e then 2 ^ nat e else 1 / 2 ^ nat (- e))"

definition pow10 :: "int \<Rightarrow> rat" where
  "pow10 e = (if 0 \<le> e then 10 ^ nat e else 1 / 10 ^ nat (- e))"

definition ilog :: "nat \<Rightarrow> rat \<Rightarrow> int" where
  "ilog b q =
     (let (n, d) = quotient_of q;
          e = int (floorlog b (nat n)) - int (floorlog b (nat d));
          p = (\<lambda>k. if 0 \<le> k then of_nat b ^ nat k else 1 / of_nat b ^ nat (- k))
      in if p e \<le> q then e else e - 1)"

definition round_half_even :: "rat \<Rightarrow> int" where
  "round_half_even r =
     (let f = \<lfloor>r\<rfloor>; d = r - of_int f
      in if d < 1 / 2 then f else if 1 / 2 < d then f + 1
         else if even f then f else f + 1)"

definition round_binary64 :: "rat \<Rightarrow> rat" where
  "round_binary64 q =
     (let e = max (ilog 2 q) (- 1022); ulp = pow2 (e - 52)
      in of_int (round_half_even (q / ulp)) * ulp)"

definition binary64 :: "rat \<Rightarrow> pyfloat" where
  "binary64 q =
     (if q = 0 then Fin 0
      else let r = round_binary64 \<bar>q\<bar> in
        if pow2 1024 \<le> r then (if q < 0 then NegInf else PosInf)
        else if r = 0 then (if q < 0 then NegZero else Fin 0)
        else Fin (if q < 0 then - r else r))"

definition lower :: "char \<Rightarrow> char" where
  "lower c = (if 65 \<le> (of_char c :: nat) \<and> (of_char c :: nat) \<le> 90 then char_of (of_char c + 32 :: nat) else c)"

definition upper_char :: "char \<Rightarrow> char" where
  "upper_char c = (if 97 \<le> (of_char c :: nat) \<and> (of_char c :: nat) \<le> 122 then char_of (of_char c - 32 :: nat) else c)"

definition upper :: "string \<Rightarrow> string" where
  "upper s = map upper_char s"

definition parse_exponent :: "string \<Rightarrow> int option" where
  "parse_exponent s =
     (case s of
        [] \<Rightarrow> Some 0
      | c # cs \<Rightarrow>
          if c = CHR ''e'' \<or> c = CHR ''E'' then
            (let (neg, ds) = split_sign cs in
             if ds \<noteq> [] \<and> list_all is_digit ds
             then Some (if neg then - int (digits_val 0 ds) else int (digits_val 0 ds))
             else None)
          else None)"

definition parse_decimal :: "string \<Rightarrow> rat option" where
  "parse_decimal s =
     (let ip = takeWhile is_digit s; r1 = dropWhile is_digit s;
          (fp, r2) = (case r1 of
             c # cs \<Rightarrow> if c = CHR ''.'' then (takeWhile is_digit cs, dropWhile is_digit cs) else ([], r1)
           | [] \<Rightarrow> ([], []))
      in if ip = [] \<and> fp = [] then None
         else map_option
           (\<lambda>e. of_nat (digits_val 0 (ip @ fp)) * pow10 (e - int (length fp)))
           (parse_exponent r2))"

definition float_of_str :: "string \<Rightarrow> pyfloat option" where
  "float_of_str s =
     (case drop_underscores (CHR 0x00) (num_strip s) of
        None \<Rightarrow> None
      | Some t \<Rightarrow>
          (let (neg, body) = split_sign t; w = map lower body in
           if w = ''inf'' \<or> w = ''infinity'' then Some (if neg then NegInf else PosInf)
           else if w = ''nan'' then Some NaN
           else case parse_decimal body of
                  None \<Rightarrow> None
                | Some q \<Rightarrow> Some (if neg \<and> q = 0 then NegZero else binary64 (if neg then - q else q))))"

definition int_of_float :: "pyfloat \<Rightarrow> error + int" where
  "int_of_float f =
     (case f of
        Fin q \<Rightarrow> Inr (if 0 \<le> q then \<lfloor>q\<rfloor> else \<lceil>q\<rceil>)
      | NegZero \<Rightarrow> Inr 0
      | PosInf \<Rightarrow> Inl OverflowError
      | NegInf \<Rightarrow> Inl OverflowError
      | NaN \<Rightarrow> Inl ValueError)"

text \<open>repr: the shortest decimal that reads back as the same float.\<close>

definition repr_candidates :: "rat \<Rightarrow> nat \<Rightarrow> (nat \<times> int) list" where
  "repr_candidates x n =
     (let k = ilog 10 x; s = pow10 (k - int n + 1);
          lo = nat \<lfloor>x / s\<rfloor>; hi = nat \<lceil>x / s\<rceil>;
          ok = filter (\<lambda>d. round_binary64 (of_nat d * s) = x) (if lo = hi then [lo] else [lo, hi]);
          best = (case ok of
                    [a, b] \<Rightarrow> (let da = x - of_nat a * s; db = of_nat b * s - x
                                in if da < db then [a] else if db < da then [b]
                                   else if even a then [a] else [b])
                  | _ \<Rightarrow> ok)
      in map (\<lambda>d. if d = 10 ^ n then (10 ^ (n - 1), k + 2) else (d, k + 1)) best)"

definition shortest_digits :: "rat \<Rightarrow> string \<times> int" where
  "shortest_digits x =
     (case concat (map (repr_candidates x) [1 ..< 18]) of
        (d, decpt) # _ \<Rightarrow> (string_of_nat d, decpt)
      | [] \<Rightarrow> ([], 0))"

definition format_repr :: "string \<Rightarrow> int \<Rightarrow> string" where
  "format_repr ds decpt =
     (if decpt \<le> - 4 \<or> 16 < decpt then
        (let e = decpt - 1; es = string_of_nat (nat \<bar>e\<bar>)
         in take 1 ds @ (if 1 < length ds then ''.'' @ drop 1 ds else [])
            @ ''e'' @ (if e < 0 then ''-'' else ''+'') @ (if length es < 2 then ''0'' @ es else es))
      else if decpt \<le> 0 then ''0.'' @ replicate (nat (- decpt)) (CHR ''0'') @ ds
      else if int (length ds) \<le> decpt then ds @ replicate (nat decpt - length ds) (CHR ''0'') @ ''.0''
      else take (nat decpt) ds @ ''.'' @ drop (nat decpt) ds)"

definition float_repr :: "pyfloat \<Rightarrow> string" where
  "float_repr f =
     (case f of
        Fin q \<Rightarrow>
          if q = 0 then ''0.0''
          else (if q < 0 then ''-'' else []) @ (let (ds, decpt) = shortest_digits \<bar>q\<bar> in format_repr ds decpt)
      | NegZero \<Rightarrow> ''-0.0''
      | PosInf \<Rightarrow> ''inf''
      | NegInf \<Rightarrow> ''-inf''
      | NaN \<Rightarrow> ''nan'')"

subsection \<open>Values and dictionaries\<close>

text \<open>
  A Python \<open>dict\<close> is an association list in insertion order whose keys are pairwise
  distinct. Assignment \<open>d[k] = v\<close> is \<^const>\<open>AList.update\<close>, lookup is \<^const>\<open>map_of\<close>.
\<close>

datatype pyval = Str string | Float pyfloat | Integer int

type_synonym 'v dict = "(string \<times> 'v) list"

definition keys :: "'v dict \<Rightarrow> string list" where
  "keys d = map fst d"

section \<open>hashlib.sha256\<close>

unbundle bit_operations_syntax

text \<open>
  \<open>str.encode()\<close> is UTF-8. A character of this development is a code point below 256:
  one byte below 128, two bytes from 128 on.
\<close>

definition encode :: "string \<Rightarrow> nat list" where
  "encode s =
     concat (map (\<lambda>c. let n = of_char c :: nat
                         in if n < 128 then [n] else [192 + n div 64, 128 + n mod 64]) s)"

text \<open>
  The round constants (the first 32 bits of the fractional parts of the cube roots of the
  first 64 primes) and the initial hash value (of the square roots of the first 8 primes),
  written in decimal.
\<close>

definition K256 :: "32 word list" where
  "K256 = map of_nat
    [1116352408, 1899447441, 3049323471, 3921009573, 961987163, 1508970993, 2453635748, 2870763221,
     3624381080, 310598401, 607225278, 1426881987, 1925078388, 2162078206, 2614888103, 3248222580,
     3835390401, 4022224774, 264347078, 604807628, 770255983, 1249150122, 1555081692, 1996064986,
     2554220882, 2821834349, 2952996808, 3210313671, 3336571891, 3584528711, 113926993, 338241895,
     666307205, 773529912, 1294757372, 1396182291, 1695183700, 1986661051, 2177026350, 2456956037,
     2730485921, 2820302411, 3259730800, 3345764771, 3516065817, 3600352804, 4094571909, 275423344,
     430227734, 506948616, 659060556, 883997877, 958139571, 1322822218, 1537002063, 1747873779,
     1955562222, 2024104815, 2227730452, 2361852424, 2428436474, 2756734187, 3204031479, 3329325298]"

definition H256 :: "32 word list" where
  "H256 = map of_nat
    [1779033703, 3144134277, 1013904242, 2773480762, 1359893119, 2600822924, 528734635, 1541459225]"

definition rotr :: "nat \<Rightarrow> 32 word \<Rightarrow> 32 word" where
  "rotr n x = (drop_bit n x) OR (push_bit (32 - n) x)"

definition ssig0 :: "32 word \<Rightarrow> 32 word" where
  "ssig0 x = rotr 7 x XOR rotr 18 x XOR drop_bit 3 x"

definition ssig1 :: "32 word \<Rightarrow> 32 word" where
  "ssig1 x = rotr 17 x XOR rotr 19 x XOR drop_bit 10 x"

definition bsig0 :: "32 word \<Rightarrow> 32 word" where
  "bsig0 x = rotr 2 x XOR rotr 13 x XOR rotr 22 x"

definition bsig1 :: "32 word \<Rightarrow> 32 word" where
  "bsig1 x = rotr 6 x XOR rotr 11 x XOR rotr 25 x"

definition pad :: "nat list \<Rightarrow> nat list" where
  "pad m =
     (let l = length m; k = (119 - l mod 64) mod 64
      in m @ [128] @ replicate k 0 @ map (\<lambda>i. (8 * l) div 256 ^ (7 - i) mod 256) [0 ..< 8])"

fun be_words :: "nat list \<Rightarrow> 32 word list" where
  "be_words (a # b # c # d # bs) = of_nat (((a * 256 + b) * 256 + c) * 256 + d) # be_words bs"
| "be_words bs = []"

fun schedule :: "nat \<Rightarrow> 32 word list \<Rightarrow> 32 word list" where
  "schedule 0 w = w"
| "schedule (Suc n) w =
     schedule n
       (w @ [ssig1 (w ! (length w - 2)) + w ! (length w - 7)
             + ssig0 (w ! (length w - 15)) + w ! (length w - 16)])"

fun round256 :: "32 word list \<Rightarrow> 32 word \<times> 32 word \<Rightarrow> 32 word list" where
  "round256 [a, b, c, d, e, f, g, h] (k, w) =
     (let t1 = h + bsig1 e + ((e AND f) XOR (NOT e AND g)) + k + w;
          t2 = bsig0 a + ((a AND b) XOR (a AND c) XOR (b AND c))
      in [t1 + t2, a, b, c, d + t1, e, f, g])"
| "round256 s kw = s"

definition compress :: "32 word list \<Rightarrow> 32 word list \<Rightarrow> 32 word list" where
  "compress h block =
     map2 (+) h (foldl round256 h (zip K256 (schedule 48 block)))"

fun blocks :: "32 word list \<Rightarrow> 32 word list \<Rightarrow> 32 word list" where
  "blocks h [] = h"
| "blocks h ws = blocks (compress h (take 16 ws)) (drop 16 ws)"

definition sha256 :: "nat list \<Rightarrow> 32 word list" where
  "sha256 m = blocks H256 (be_words (pad m))"

definition hex_digit :: "nat \<Rightarrow> char" where
  "hex_digit n = (if n < 10 then char_of (48 + n) else char_of (87 + n))"

definition hex_word :: "32 word \<Rightarrow> string" where
  "hex_word w = map (\<lambda>i. hex_digit (unat w div 16 ^ (7 - i) mod 16)) [0 ..< 8]"

definition hexdigest :: "32 word list \<Rightarrow> string" where
  "hexdigest h = concat (map hex_word h)"

definition sha256_hex :: "string \<Rightarrow> string" where
  "sha256_hex s = hexdigest (sha256 (encode s))"

section \<open>libs/parser.py: the CSV export\<close>

subsection \<open>datetime\<close>

text \<open>
  Of a \<open>datetime\<close> the code reads the calendar date only. \<open>strftime\<close> is modelled for the
  directives the code uses: \<open>%Y\<close> (the year in decimal, as the C library prints it, without
  padding), \<open>%m\<close> and \<open>%d\<close> (two digits); any other character is copied.
\<close>

record datetime =
  year :: nat
  month :: nat
  day :: nat

definition pad2 :: "nat \<Rightarrow> string" where
  "pad2 n = (if n < 10 then ''0'' @ string_of_nat n else string_of_nat n)"

fun strftime :: "datetime \<Rightarrow> string \<Rightarrow> string" where
  "strftime dt (c # d # fmt) =
     (if c = CHR ''%'' \<and> d = CHR ''Y'' then string_of_nat (year dt) @ strftime dt fmt
      else if c = CHR ''%'' \<and> d = CHR ''m'' then pad2 (month dt) @ strftime dt fmt
      else if c = CHR ''%'' \<and> d = CHR ''d'' then pad2 (day dt) @ strftime dt fmt
      else c # strftime dt (d # fmt))"
| "strftime dt fmt = fmt"

definition is_leap :: "nat \<Rightarrow> bool" where
  "is_leap y = (y mod 4 = 0 \<and> (y mod 100 \<noteq> 0 \<or> y mod 400 = 0))"

definition days_in_month :: "nat \<Rightarrow> nat \<Rightarrow> nat" where
  "days_in_month y m =
     (if m = 2 then (if is_leap y then 29 else 28)
      else if m \<in> {4, 6, 9, 11} then 30 else 31)"

text \<open>
  \<open>datetime.strptime(value, '%d.%m.%Y')\<close>. The day matches
  \<open>3[0-1]|[1-2]\d|0[1-9]|[1-9]| [1-9]\<close>, the month \<open>1[0-2]|0[1-9]|[1-9]\<close>, the year
  \<open>\d\d\d\d\<close>; nothing may follow the year; the date must exist.
\<close>

definition in_range :: "char \<Rightarrow> char \<Rightarrow> char \<Rightarrow> bool" where
  "in_range lo hi c = ((of_char lo :: nat) \<le> of_char c \<and> (of_char c :: nat) \<le> of_char hi)"

definition day_token :: "string \<Rightarrow> bool" where
  "day_token tok =
     (case tok of
        [a] \<Rightarrow> in_range (CHR ''1'') (CHR ''9'') a
      | [a, b] \<Rightarrow>
          (a = CHR ''3'' \<and> in_range (CHR ''0'') (CHR ''1'') b)
          \<or> (in_range (CHR ''1'') (CHR ''2'') a \<and> is_digit b)
          \<or> (a = CHR ''0'' \<and> in_range (CHR ''1'') (CHR ''9'') b)
          \<or> (a = CHR '' '' \<and> in_range (CHR ''1'') (CHR ''9'') b)
      | _ \<Rightarrow> False)"

definition month_token :: "string \<Rightarrow> bool" where
  "month_token tok =
     (case tok of
        [a] \<Rightarrow> in_range (CHR ''1'') (CHR ''9'') a
      | [a, b] \<Rightarrow>
          (a = CHR ''1'' \<and> in_range (CHR ''0'') (CHR ''2'') b)
          \<or> (a = CHR ''0'' \<and> in_range (CHR ''1'') (CHR ''9'') b)
      | _ \<Rightarrow> False)"

definition strptime :: "string \<Rightarrow> error + datetime" where
  "strptime s =
     (let dtok = takeWhile (\<lambda>c. c \<noteq> CHR ''.'') s;
          mtok = takeWhile (\<lambda>c. c \<noteq> CHR ''.'') (drop (Suc (length dtok)) s);
          ytok = drop (Suc (length dtok) + Suc (length mtok)) s
      in if length dtok + length mtok + 6 = length s
            \<and> day_token dtok \<and> month_token mtok \<and> list_all is_digit ytok
         then
           (let y = digits_val 0 ytok; m = digits_val 0 mtok;
                d = digits_val 0 (filter is_digit dtok)
            in if 1 \<le> y \<and> d \<le> days_in_month y m
               then Inr \<lparr>year = y, month = m, day = d\<rparr>
               else Inl ValueError)
         else Inl ValueError)"

subsection \<open>csv.reader\<close>

text \<open>
  The reader of the \<open>csv\<close> module with \<open>delimiter=';'\<close> and the other settings at their
  defaults: quote character \<open>"\<close>, doubled quotes, no escape character, not strict, fields
  of at most 131072 characters. \<open>StringIO(content)\<close> hands it the lines of the body, each
  with its line feed.
\<close>

datatype parser_state =
  START_RECORD | START_FIELD | IN_FIELD | IN_QUOTED_FIELD | QUOTE_IN_QUOTED_FIELD | EAT_CRNL

record reader =
  r_state :: parser_state
  r_field :: string
  r_fields :: "string list"

definition LF :: char where "LF = CHR 0x0A"
definition CR :: char where "CR = CHR 0x0D"

definition field_limit :: nat where
  "field_limit = 131072"

definition parse_reset :: reader where
  "parse_reset = \<lparr>r_state = START_RECORD, r_field = [], r_fields = []\<rparr>"

definition parse_save_field :: "reader \<Rightarrow> reader" where
  "parse_save_field r = r\<lparr>r_fields := r_fields r @ [r_field r], r_field := []\<rparr>"

definition parse_add_char :: "reader \<Rightarrow> char \<Rightarrow> error + reader" where
  "parse_add_char r c =
     (if field_limit \<le> length (r_field r) then Inl CsvError
      else Inr (r\<lparr>r_field := r_field r @ [c]\<rparr>))"

definition set_state :: "parser_state \<Rightarrow> reader \<Rightarrow> reader" where
  "set_state s r = r\<lparr>r_state := s\<rparr>"

text \<open>The input character \<open>None\<close> is the end of a line (\<open>EOL\<close>).\<close>

definition end_of_field :: "reader \<Rightarrow> char option \<Rightarrow> reader" where
  "end_of_field r c =
     set_state (if c = None then START_RECORD else EAT_CRNL) (parse_save_field r)"

definition start_field :: "reader \<Rightarrow> char option \<Rightarrow> error + reader" where
  "start_field r c =
     (if c = None \<or> c = Some LF \<or> c = Some CR then Inr (end_of_field r c)
      else if c = Some (CHR 0x22) then Inr (set_state IN_QUOTED_FIELD r)
      else if c = Some (CHR '';'') then Inr (parse_save_field r)
      else map_sum id (set_state IN_FIELD) (parse_add_char r (the c)))"

definition parse_process_char :: "reader \<Rightarrow> char option \<Rightarrow> error + reader" where
  "parse_process_char r c =
     (case r_state r of
        START_RECORD \<Rightarrow>
          if c = None then Inr r
          else if c = Some LF \<or> c = Some CR then Inr (set_state EAT_CRNL r)
          else start_field (set_state START_FIELD r) c
      | START_FIELD \<Rightarrow> start_field r c
      | IN_FIELD \<Rightarrow>
          if c = None \<or> c = Some LF \<or> c = Some CR then Inr (end_of_field r c)
          else if c = Some (CHR '';'') then Inr (set_state START_FIELD (parse_save_field r))
          else parse_add_char r (the c)
      | IN_QUOTED_FIELD \<Rightarrow>
          if c = None then Inr r
          else if c = Some (CHR 0x22) then Inr (set_state QUOTE_IN_QUOTED_FIELD r)
          else parse_add_char r (the c)
      | QUOTE_IN_QUOTED_FIELD \<Rightarrow>
          if c = Some (CHR 0x22) then map_sum id (set_state IN_QUOTED_FIELD) (parse_add_char r (the c))
          else if c = Some (CHR '';'') then Inr (set_state START_FIELD (parse_save_field r))
          else if c = None \<or> c = Some LF \<or> c = Some CR then Inr (end_of_field r c)
          else map_sum id (set_state IN_FIELD) (parse_add_char r (the c))
      | EAT_CRNL \<Rightarrow>
          if c = Some LF \<or> c = Some CR then Inr r
          else if c = None then Inr (set_state START_RECORD r)
          else Inl CsvError)"

fun process_chars :: "reader \<Rightarrow> char option list \<Rightarrow> error + reader" where
  "process_chars r [] = Inr r"
| "process_chars r (c # cs) =
     (case parse_process_char r c of Inl e \<Rightarrow> Inl e | Inr r' \<Rightarrow> process_chars r' cs)"

text \<open>
  The rows that successive \<open>next(reader)\<close> calls return, and how the iteration ends:
  \<open>None\<close> when the input is exhausted, \<open>Some e\<close> when the next call raises \<open>e\<close>.
\<close>

fun csv_rows :: "reader \<Rightarrow> string list \<Rightarrow> string list list \<times> error option" where
  "csv_rows r [] =
     (if r_field r \<noteq> [] \<or> r_state r = IN_QUOTED_FIELD
      then ([r_fields (parse_save_field r)], None) else ([], None))"
| "csv_rows r (line # lines) =
     (case process_chars r (map Some line @ [None]) of
        Inl e \<Rightarrow> ([], Some e)
      | Inr r' \<Rightarrow>
          if r_state r' = START_RECORD
          then (let (rows, e) = csv_rows parse_reset lines in (r_fields r' # rows, e))
          else csv_rows r' lines)"

fun split_lines :: "string \<Rightarrow> string \<Rightarrow> string list" where
  "split_lines cur [] = (if cur = [] then [] else [cur])"
| "split_lines cur (c # cs) =
     (if c = LF then (cur @ [c]) # split_lines [] cs else split_lines (cur @ [c]) cs)"

definition csv_reader :: "string \<Rightarrow> string list list \<times> error option" where
  "csv_reader content = csv_rows parse_reset (split_lines [] content)"

subsection \<open>ParseVendors._parse_csv_payments\<close>

text \<open>
  The conversion inside the \<open>try\<close>: an amount loses its spaces, gets a period for its comma
  and goes through \<open>float()\<close>; a date goes through \<open>strptime\<close> and \<open>strftime\<close>; any other
  value stays the string it is.
\<close>

definition convert_field :: "string \<Rightarrow> string \<Rightarrow> error + pyval" where
  "convert_field key val =
     (if key \<in> {''AMOUNT'', ''ALL_AMOUNT''} then
        (case float_of_str
                (map (\<lambda>c. if c = CHR '','' then CHR ''.'' else c) (filter (\<lambda>c. c \<noteq> CHR '' '') val)) of
           None \<Rightarrow> Inl ValueError
         | Some f \<Rightarrow> Inr (Float f))
      else if key \<in> {''DATE_OF_USE'', ''SUBSCRIPTION_START'', ''SUBSCRIPTION_END''} then
        map_sum id (\<lambda>dt. Str (strftime dt ''%Y-%m-%d'')) (strptime val)
      else Inr (Str val))"

text \<open>
  \<open>for key, value in zip(header, row)\<close>: \<open>except (ValueError, TypeError)\<close> keeps the raw
  string; any other error would leave the function.
\<close>

fun for_fields :: "(string \<times> string) list \<Rightarrow> pyval dict \<Rightarrow> error + pyval dict" where
  "for_fields [] payment = Inr payment"
| "for_fields ((key, val) # kvs) payment =
     (case convert_field key val of
        Inr v \<Rightarrow> for_fields kvs (AList.update key v payment)
      | Inl e \<Rightarrow>
          if e = ValueError \<or> e = TypeError
          then for_fields kvs (AList.update key (Str val) payment)
          else Inl e)"

text \<open>Truth value of \<open>payment.get('ID')\<close>.\<close>

definition truthy :: "pyval option \<Rightarrow> bool" where
  "truthy v =
     (case v of
        None \<Rightarrow> False
      | Some (Str s) \<Rightarrow> s \<noteq> []
      | Some (Float f) \<Rightarrow> f \<noteq> Fin 0 \<and> f \<noteq> NegZero
      | Some (Integer i) \<Rightarrow> i \<noteq> 0)"

text \<open>The premium branch: \<open>payment['MEMBER_ID'] + self.date_time.strftime('01-%m-%Y')\<close>.\<close>

definition premium_fields :: "datetime \<Rightarrow> pyval dict \<Rightarrow> error + pyval dict" where
  "premium_fields date_time payment =
     (case map_of payment ''MEMBER_ID'' of
        None \<Rightarrow> Inl KeyError
      | Some (Str member_id) \<Rightarrow>
          Inr (AList.update ''DATE_PARSE'' (Str (strftime date_time ''%Y-%m-01''))
                (AList.update ''hash''
                   (Str (sha256_hex (member_id @ strftime date_time ''01-%m-%Y''))) payment))
      | Some v \<Rightarrow> Inl TypeError)"

text \<open>\<open>for row in reader\<close>, over the rows the reader returns.\<close>

fun for_reader_rows ::
  "datetime \<Rightarrow> bool \<Rightarrow> string list \<Rightarrow> string list list \<Rightarrow> pyval dict list
     \<Rightarrow> error + pyval dict list" where
  "for_reader_rows date_time is_premium header [] payments = Inr payments"
| "for_reader_rows date_time is_premium header (row # rows) payments =
     (if length row \<le> 1 then for_reader_rows date_time is_premium header rows payments
      else
        (case for_fields (zip header row) [] of
           Inl e \<Rightarrow> Inl e
         | Inr payment \<Rightarrow>
             if is_premium then
               (case premium_fields date_time payment of
                  Inl e \<Rightarrow> Inl e
                | Inr payment' \<Rightarrow>
                    for_reader_rows date_time is_premium header rows (payments @ [payment']))
             else if truthy (map_of payment ''ID'') then
               for_reader_rows date_time is_premium header rows (payments @ [payment])
             else for_reader_rows date_time is_premium header rows payments))"

text \<open>
  \<open>next(reader)\<close> on an exhausted reader raises \<open>StopIteration\<close>; a \<open>csv.Error\<close> is logged
  and raised again, at the row where the reader meets it.
\<close>

definition parse_csv_payments :: "datetime \<Rightarrow> string \<Rightarrow> bool \<Rightarrow> error + pyval dict list" where
  "parse_csv_payments date_time content is_premium =
     (case csv_reader content of
        ([], None) \<Rightarrow> Inl StopIteration
      | ([], Some e) \<Rightarrow> Inl e
      | (first # rows, stop) \<Rightarrow>
          (case for_reader_rows date_time is_premium (butlast first) rows [] of
             Inl e \<Rightarrow> Inl e
           | Inr payments \<Rightarrow> (case stop of None \<Rightarrow> Inr payments | Some e \<Rightarrow> Inl e)))"

text \<open>
  What the inner loop stores for one field, and the record it builds for one row
  (lemma \<open>for_fields_eq\<close> relates them to \<^const>\<open>for_fields\<close>).
\<close>

definition stored_value :: "string \<Rightarrow> string \<Rightarrow> pyval" where
  "stored_value key val = (case convert_field key val of Inr v \<Rightarrow> v | Inl e \<Rightarrow> Str val)"

definition build_payment :: "string list \<Rightarrow> string list \<Rightarrow> pyval dict" where
  "build_payment header row =
     fold (\<lambda>(key, val). AList.update key (stored_value key val)) (zip header row) []"

text \<open>A row is a data row when it has more than one field.\<close>

definition data_row :: "string list \<Rightarrow> bool" where
  "data_row row = (1 < length row)"

text \<open>The reference date of a run on 15 July 2024.\<close>

definition run_date :: datetime where
  "run_date = \<lparr>year = 2024, month = 7, day = 15\<rparr>"



section \<open>libs/parser.py: the paginated listings\<close>

text \<open>
  A page request either fails with a \<open>RequestException\<close> (a transport failure, or a status
  that \<open>raise_for_status\<close> rejects) or returns a document. A server is a function from the
  page number to the response: the scrapers request the pages 1, 2, 3, ... once each, in this
  order, so a server that answers by the history of requests is such a function too.
  A document is what BeautifulSoup finds in it for the queries the code makes; the text of
  an element stands for the element.
\<close>

datatype 'doc response = Failed | Page 'doc

text \<open>What a page does to the loop: \<open>break\<close>, or rows appended to \<open>result\<close>.\<close>

datatype step = Break | Extend "string dict list"

definition max_pages :: nat where
  "max_pages = 100"

text \<open>
  \<open>for page in range(1, max_pages + 1)\<close> with its \<open>try\<close>. The state is \<open>result\<close> and the
  list of the pages fetched so far.
\<close>

fun for_pages ::
  "('doc \<Rightarrow> error + step) \<Rightarrow> (nat \<Rightarrow> 'doc response) \<Rightarrow> nat list
     \<Rightarrow> string dict list \<times> nat list \<Rightarrow> (error + string dict list) \<times> nat list" where
  "for_pages body server [] (result, fetched) = (Inr result, fetched)"
| "for_pages body server (page # pages) (result, fetched) =
     (case server page of
        Failed \<Rightarrow> (Inr result, fetched @ [page])
      | Page doc \<Rightarrow>
          (case body doc of
             Inl e \<Rightarrow> (Inl e, fetched @ [page])
           | Inr Break \<Rightarrow> (Inr result, fetched @ [page])
           | Inr (Extend rows) \<Rightarrow>
               for_pages body server pages (result @ rows, fetched @ [page])))"

text \<open>\<open>{headers[i]: cells[i].text.strip() for i in range(len(headers))}\<close>\<close>

definition row_data :: "string list \<Rightarrow> string list \<Rightarrow> string dict" where
  "row_data headers cells =
     fold (\<lambda>i. AList.update (headers ! i) (strip (cells ! i))) [0 ..< length headers] []"

subsection \<open>get_app_list\<close>

text \<open>
  \<open>re.search(r"bx24vendorClients\((\d+)\)", actions)\<close>: the digits of the leftmost match.
\<close>

definition match_here :: "string \<Rightarrow> string option" where
  "match_here s =
     (let rest = drop 18 s; ds = takeWhile is_digit rest
      in if take 18 s = ''bx24vendorClients('' \<and> ds \<noteq> []
            \<and> take 1 (dropWhile is_digit rest) = '')'' then Some ds else None)"

fun search_client :: "string \<Rightarrow> string option" where
  "search_client [] = None"
| "search_client (c # cs) =
     (case match_here (c # cs) of Some ds \<Rightarrow> Some ds | None \<Rightarrow> search_client cs)"

text \<open>
  A row of the grid: the texts of its \<open>td\<close> cells, and its action button: \<open>None\<close> when the
  row has no such \<open>span\<close>, \<open>Some None\<close> when the \<open>span\<close> has no \<open>data-actions\<close> attribute.
\<close>

record app_row =
  cells :: "string list"
  action_span :: "string option option"

text \<open>
  The table \<open>vendor_app_list_table\<close>: the texts of the \<open>th\<close> elements of its \<open>thead\<close>
  (\<open>None\<close> when it has no \<open>thead\<close>) and its body rows.
\<close>

record app_table =
  thead :: "string list option"
  body_rows :: "app_row list"

definition app_row_data :: "string list \<Rightarrow> app_row \<Rightarrow> string dict" where
  "app_row_data headers row =
     (let d = row_data headers (cells row)
      in case action_span row of
           Some (Some actions) \<Rightarrow>
             (case search_client actions of Some ds \<Rightarrow> AList.update ''id'' ds d | None \<Rightarrow> d)
         | _ \<Rightarrow> d)"

definition app_headers :: "string list \<Rightarrow> string list" where
  "app_headers ths = filter (\<lambda>h. h \<noteq> []) (map strip ths)"

definition app_rows :: "app_table \<Rightarrow> string dict list" where
  "app_rows t =
     (let headers = app_headers (the (thead t))
      in map (app_row_data headers)
           (filter (\<lambda>row. \<not> length (cells row) < length headers) (body_rows t)))"

text \<open>
  One page of \<open>get_app_list\<close>. A table without \<open>thead\<close> makes \<open>table.find('thead').find_all\<close>
  raise \<open>AttributeError\<close>, which the \<open>try\<close> does not catch.
\<close>

definition app_page :: "app_table option \<Rightarrow> error + step" where
  "app_page doc =
     (case doc of
        None \<Rightarrow> Inr Break
      | Some t \<Rightarrow>
          (case thead t of
             None \<Rightarrow> Inl AttributeError
           | Some ths \<Rightarrow>
               if app_headers ths = [] then Inr Break
               else if body_rows t = [] then Inr Break
               else Inr (Extend (app_rows t))))"

definition get_app_list ::
  "(nat \<Rightarrow> app_table option response) \<Rightarrow> (error + string dict list) \<times> nat list" where
  "get_app_list server = for_pages app_page server [1 ..< max_pages + 1] ([], [])"

subsection \<open>get_client_list\<close>

text \<open>
  The table \<open>mp24_client\<close>: the texts of the \<open>td\<close> cells of its row \<open>bx-grid-head\<close> (\<open>None\<close>
  when it has no such row) and, for each \<open>tr\<close> without class or of class \<open>dru\<close>, the texts
  of its \<open>td\<close> cells.
\<close>

record client_table =
  header_row :: "string list option"
  client_rows :: "string list list"

definition client_headers :: "string list \<Rightarrow> string list" where
  "client_headers tds = map (\<lambda>td. if strip td = [] then ''actions'' else strip td) tds"

definition client_data :: "client_table \<Rightarrow> string dict list" where
  "client_data t =
     (let headers = client_headers (the (header_row t))
      in map (row_data headers)
           (filter (\<lambda>cells. length headers \<le> length cells) (client_rows t)))"

definition client_page :: "client_table option \<Rightarrow> error + step" where
  "client_page doc =
     (case doc of
        None \<Rightarrow> Inr Break
      | Some t \<Rightarrow>
          (case header_row t of
             None \<Rightarrow> Inr Break
           | Some tds \<Rightarrow>
               if length (client_rows t) \<le> 1 then Inr Break
               else Inr (Extend (client_data t))))"

definition get_client_list ::
  "(string \<Rightarrow> nat \<Rightarrow> client_table option response) \<Rightarrow> string
     \<Rightarrow> (error + string dict list) \<times> nat list" where
  "get_client_list server app_id =
     for_pages client_page (server app_id) [1 ..< max_pages + 1] ([], [])"

text \<open>A page is populated when the loop goes on after it.\<close>

definition app_populated :: "app_table option \<Rightarrow> bool" where
  "app_populated doc =
     (case doc of
        None \<Rightarrow> False
      | Some t \<Rightarrow>
          (case thead t of
             None \<Rightarrow> False
           | Some ths \<Rightarrow> app_headers ths \<noteq> [] \<and> body_rows t \<noteq> []))"

definition client_populated :: "client_table option \<Rightarrow> bool" where
  "client_populated doc =
     (case doc of
        None \<Rightarrow> False
      | Some t \<Rightarrow> header_row t \<noteq> None \<and> 1 < length (client_rows t))"

text \<open>
  Test servers: tables with one header and two body rows, served on every page, or on every
  page but the third, where the request fails.
\<close>

definition mock_app_table :: app_table where
  "mock_app_table =
     \<lparr>thead = Some ['' Name ''],
      body_rows = [\<lparr>cells = [''A''], action_span = Some (Some ''bx24vendorClients(17)'')\<rparr>,
                   \<lparr>cells = [''B''], action_span = None\<rparr>]\<rparr>"

definition mock_client_table :: client_table where
  "mock_client_table = \<lparr>header_row = Some [''Client''], client_rows = [[''Client''], [''C'']]\<rparr>"



definition failing_apps :: "nat \<Rightarrow> app_table option response" where
  "failing_apps page = (if page = 3 then Failed else Page (Some mock_app_table))"

definition failing_clients :: "string \<Rightarrow> nat \<Rightarrow> client_table option response" where
  "failing_clients app_id page = (if page = 3 then Failed else Page (Some mock_client_table))"

section \<open>libs/ydb.py: the batch upsert\<close>

definition py_int :: "pyval \<Rightarrow> error + int" where
  "py_int v = (case v of Str s \<Rightarrow> int_of_str s | Float f \<Rightarrow> int_of_float f | Integer i \<Rightarrow> Inr i)"

definition py_str :: "pyval \<Rightarrow> string" where
  "py_str v =
     (case v of
        Str s \<Rightarrow> s
      | Float f \<Rightarrow> float_repr f
      | Integer i \<Rightarrow> (if i < 0 then ''-'' else []) @ string_of_nat (nat \<bar>i\<bar>))"

fun join :: "string \<Rightarrow> string list \<Rightarrow> string" where
  "join sep [] = []"
| "join sep [x] = x"
| "join sep (x # y # xs) = x @ sep @ join sep (y # xs)"

text \<open>
  The remote store. \<open>session_pool\<close> is the module's session object; every call on it is
  a network interaction and is appended to \<open>calls\<close>. The store may refuse a call.
\<close>

datatype ydb_call = Prepare string | Execute string "pyval dict"

record session =
  calls :: "ydb_call list"
  refuses :: "ydb_call \<Rightarrow> bool"

definition prepare :: "session \<Rightarrow> string \<Rightarrow> (error + string) \<times> session" where
  "prepare sp query =
     (if refuses sp (Prepare query) then Inl YdbError else Inr query,
      sp\<lparr>calls := calls sp @ [Prepare query]\<rparr>)"

definition execute :: "session \<Rightarrow> string \<Rightarrow> pyval dict \<Rightarrow> (error + unit) \<times> session" where
  "execute sp prepared_query param_values =
     (if refuses sp (Execute prepared_query param_values) then Inl YdbError else Inr (),
      sp\<lparr>calls := calls sp @ [Execute prepared_query param_values]\<rparr>)"

definition param_name :: "string \<Rightarrow> nat \<Rightarrow> string" where
  "param_name col row_idx = ''$'' @ col @ ''_'' @ string_of_nat row_idx"

definition ydb_type :: "string \<Rightarrow> string" where
  "ydb_type col = (if upper col = ''ID'' then ''Int64'' else ''Utf8'')"

definition declare_stmt :: "string \<Rightarrow> nat \<Rightarrow> string" where
  "declare_stmt col row_idx =
     ''DECLARE '' @ param_name col row_idx @ '' AS '' @ ydb_type col @ '';''"

definition bind_row :: "string list \<Rightarrow> string" where
  "bind_row bind_vars = ''('' @ join '', '' bind_vars @ '')''"

text \<open>The value bound to a parameter: \<open>int(row[col])\<close> for an identifier column, else \<open>str(row[col])\<close>.\<close>

definition convert :: "string \<Rightarrow> pyval \<Rightarrow> error + pyval" where
  "convert col v =
     (if upper col = ''ID'' then map_sum id Integer (py_int v) else Inr (Str (py_str v)))"

text \<open>
  The body of \<open>for col in columns\<close>; the state is
  \<open>(bind_vars, param_values, declare_block)\<close>.
\<close>

fun for_cols ::
  "pyval dict \<Rightarrow> nat \<Rightarrow> string list \<Rightarrow> string list \<times> pyval dict \<times> string list
     \<Rightarrow> error + string list \<times> pyval dict \<times> string list" where
  "for_cols row row_idx [] st = Inr st"
| "for_cols row row_idx (col # cols) (bind_vars, param_values, declare_block) =
     (case map_of row col of
        None \<Rightarrow> Inl KeyError
      | Some v \<Rightarrow>
          (case convert col v of
             Inl e \<Rightarrow> Inl e
           | Inr pv \<Rightarrow>
               for_cols row row_idx cols
                 (bind_vars @ [param_name col row_idx],
                  AList.update (param_name col row_idx) pv param_values,
                  declare_block @ [declare_stmt col row_idx])))"

text \<open>
  The body of \<open>for row_idx, row in enumerate(data)\<close>; the state is
  \<open>(declare_block, param_values, bind_vars_rows)\<close>.
\<close>

fun for_rows ::
  "string list \<Rightarrow> nat \<Rightarrow> pyval dict list \<Rightarrow> string list \<times> pyval dict \<times> string list
     \<Rightarrow> error + string list \<times> pyval dict \<times> string list" where
  "for_rows columns row_idx [] st = Inr st"
| "for_rows columns row_idx (row # rows) (declare_block, param_values, bind_vars_rows) =
     (case for_cols row row_idx columns ([], param_values, declare_block) of
        Inl e \<Rightarrow> Inl e
      | Inr (bind_vars, param_values', declare_block') \<Rightarrow>
          for_rows columns (Suc row_idx) rows
            (declare_block', param_values', bind_vars_rows @ [bind_row bind_vars]))"

definition statement :: "string \<Rightarrow> string list \<Rightarrow> string list \<Rightarrow> string list \<Rightarrow> string" where
  "statement table columns declare_block bind_vars_rows =
     [CHR 0x0A] @ ''    '' @ join '' '' declare_block @ [CHR 0x0A]
     @ ''    UPSERT INTO `'' @ table @ ''` ('' @ join '', '' columns @ '')'' @ [CHR 0x0A]
     @ ''    VALUES '' @ join '', '' bind_vars_rows @ '';'' @ [CHR 0x0A] @ ''    ''"

definition upset_data :: "string \<Rightarrow> pyval dict list \<Rightarrow> session \<Rightarrow> (error + bool) \<times> session" where
  "upset_data table data sp =
     (case data of
        [] \<Rightarrow> (Inl IndexError, sp)
      | first # _ \<Rightarrow>
          (let columns = keys first in
           if \<not> list_all (\<lambda>item. set (keys item) = set columns) data then (Inl ValueError, sp)
           else
             (case for_rows columns 0 data ([], [], []) of
                Inl e \<Rightarrow> (Inl e, sp)
              | Inr (declare_block, param_values, bind_vars_rows) \<Rightarrow>
                  (case prepare sp (statement table columns declare_block bind_vars_rows) of
                     (Inl e, sp1) \<Rightarrow> (Inl e, sp1)
                   | (Inr prepared_query, sp1) \<Rightarrow>
                       (case execute sp1 prepared_query param_values of
                          (Inl e, sp2) \<Rightarrow> (Inl e, sp2)
                        | (Inr u, sp2) \<Rightarrow> (Inr True, sp2))))))"

text \<open>A session on which no call has been made yet and whose store accepts every call.\<close>

definition fresh_session :: session where
  "fresh_session = \<lparr>calls = [], refuses = (\<lambda>c. False)\<rparr>"

text \<open>A batch of two records that list the same two columns in different orders.\<close>

definition two_records :: "pyval dict list" where
  "two_records =
     [[(''ID'', Str ''1''), (''NAME'', Str ''a'')], [(''NAME'', Str ''b''), (''ID'', Str ''2'')]]"

section \<open>Properties of the batch upsert\<close>

lemma is_digit_char_of: "(k::nat) < 10 \<Longrightarrow> is_digit (char_of (48 + k))"
  by (simp add: is_digit_def)

lemma string_of_nat_digits: "c \<in> set (string_of_nat n) \<Longrightarrow> is_digit c"
proof (induction n arbitrary: c rule: string_of_nat.induct)
  case (1 n)
  show ?case
  proof (cases "n < 10")
    case True
    with "1.prems" show ?thesis
      by (simp add: string_of_nat.simps [of n] is_digit_char_of)
  next
    case False
    with "1.prems" have "c \<in> set (string_of_nat (n div 10)) \<or> c = char_of (48 + n mod 10)"
      by (subst (asm) string_of_nat.simps) auto
    then show ?thesis
      using "1.IH" [OF False] is_digit_char_of [of "n mod 10"] by auto
  qed
qed

lemma digits_val_snoc: "digits_val acc (xs @ [c]) = 10 * digits_val acc xs + digit_val c"
  by (induction xs arbitrary: acc) simp_all

lemma digit_val_char_of: "k < 10 \<Longrightarrow> digit_val (char_of (48 + k)) = k"
  by (simp add: digit_val_def)

lemma digits_val_string_of_nat: "digits_val 0 (string_of_nat n) = n"
proof (induction n rule: string_of_nat.induct)
  case (1 n)
  show ?case
  proof (cases "n < 10")
    case True
    then show ?thesis by (simp add: string_of_nat.simps [of n] digit_val_char_of)
  next
    case False
    have "digits_val 0 (string_of_nat n) =
        10 * digits_val 0 (string_of_nat (n div 10)) + digit_val (char_of (48 + n mod 10))"
      using False by (subst string_of_nat.simps) (simp add: digits_val_snoc)
    also have "\<dots> = 10 * (n div 10) + n mod 10"
      using "1.IH" [OF False] by (simp add: digit_val_char_of)
    finally show ?thesis by simp
  qed
qed

lemma string_of_nat_inj: "string_of_nat m = string_of_nat n \<Longrightarrow> m = n"
  by (metis digits_val_string_of_nat)

lemma split_at_last:
  assumes "xs @ c # ys = xs' @ c # ys'" and "c \<notin> set ys" and "c \<notin> set ys'"
  shows "xs = xs' \<and> ys = ys'"
  using assms
proof (induction xs arbitrary: xs')
  case Nil
  then show ?case by (cases xs') auto
next
  case (Cons a xs)
  then show ?case by (cases xs') auto
qed

lemma underscore_not_digit: "\<not> is_digit (CHR ''_'')"
  by (simp add: is_digit_def)

lemma param_name_inj:
  assumes "param_name c i = param_name c' j"
  shows "c = c' \<and> i = j"
proof -
  have n: "CHR ''_'' \<notin> set (string_of_nat k)" for k
    using string_of_nat_digits underscore_not_digit by blast
  from assms have "c @ CHR ''_'' # string_of_nat i = c' @ CHR ''_'' # string_of_nat j"
    by (simp add: param_name_def)
  from split_at_last [OF this n n] show ?thesis
    by (auto dest: string_of_nat_inj)
qed

lemma update_fresh: "k \<notin> set (keys al) \<Longrightarrow> AList.update k v al = al @ [(k, v)]"
  by (induction al) (auto simp: keys_def)

lemma for_cols_ok:
  assumes "for_cols row i cols (bv, pv, db) = Inr (bv', pv', db')"
    and "distinct cols" and "\<forall>c \<in> set cols. param_name c i \<notin> set (keys pv)"
  shows "bv' = bv @ map (\<lambda>c. param_name c i) cols
       \<and> db' = db @ map (\<lambda>c. declare_stmt c i) cols
       \<and> (\<exists>vals. pv' = pv @ zip (map (\<lambda>c. param_name c i) cols) vals
            \<and> list_all2 (\<lambda>c x. \<exists>v. map_of row c = Some v \<and> convert c v = Inr x) cols vals)"
  using assms
proof (induction cols arbitrary: bv pv db)
  case Nil
  then show ?case by simp
next
  case (Cons c cols)
  from Cons.prems(1) obtain v x where v: "map_of row c = Some v" and x: "convert c v = Inr x"
    and rest: "for_cols row i cols (bv @ [param_name c i],
        AList.update (param_name c i) x pv, db @ [declare_stmt c i]) = Inr (bv', pv', db')"
    by (auto split: option.splits sum.splits)
  have upd: "AList.update (param_name c i) x pv = pv @ [(param_name c i, x)]"
    using Cons.prems(3) by (simp add: update_fresh)
  have fresh: "\<forall>d \<in> set cols. param_name d i \<notin> set (keys (pv @ [(param_name c i, x)]))"
    using Cons.prems(2,3) by (auto simp: keys_def dest: param_name_inj)
  from Cons.IH [OF rest [unfolded upd] _ fresh] Cons.prems(2)
  obtain vals where
    "bv' = (bv @ [param_name c i]) @ map (\<lambda>c. param_name c i) cols"
    "db' = (db @ [declare_stmt c i]) @ map (\<lambda>c. declare_stmt c i) cols"
    "pv' = (pv @ [(param_name c i, x)]) @ zip (map (\<lambda>c. param_name c i) cols) vals"
    "list_all2 (\<lambda>c x. \<exists>v. map_of row c = Some v \<and> convert c v = Inr x) cols vals"
    by auto
  then show ?case
    using v x by (intro conjI exI [of _ "x # vals"]) simp_all
qed



lemma map_of_zip_names:
  assumes "list_all2 P cols vals" and "distinct cols" and "c \<in> set cols"
    and "inj_on f (set cols)"
  shows "\<exists>x. map_of (zip (map f cols) vals) (f c) = Some x \<and> P c x"
  using assms
proof (induction cols vals rule: list_all2_induct)
  case Nil
  then show ?case by simp
next
  case (Cons a cols x vals)
  show ?case
  proof (cases "c = a")
    case True
    with Cons show ?thesis by simp
  next
    case False
    with Cons.prems have "c \<in> set cols" "f c \<noteq> f a" "distinct cols" "inj_on f (set cols)"
      by (auto simp: inj_on_def)
    with Cons.IH show ?thesis by simp
  qed
qed

lemma for_rows_ok:
  assumes "for_rows columns i rows (db, pv, bvr) = Inr (db', pv', bvr')"
    and "distinct columns"
    and "\<forall>k \<in> set (keys pv). \<exists>c j. k = param_name c j \<and> j < i"
  shows "db' = db @ concat (map (\<lambda>j. map (\<lambda>c. declare_stmt c j) columns) [i ..< i + length rows])
       \<and> bvr' = bvr @ map (\<lambda>j. bind_row (map (\<lambda>c. param_name c j) columns)) [i ..< i + length rows]
       \<and> (\<exists>more. pv' = pv @ more)
       \<and> keys pv' = keys pv @ concat (map (\<lambda>j. map (\<lambda>c. param_name c j) columns) [i ..< i + length rows])
       \<and> (\<forall>j < length rows. \<forall>c \<in> set columns. \<exists>v x. map_of (rows ! j) c = Some v
              \<and> convert c v = Inr x \<and> map_of pv' (param_name c (i + j)) = Some x)"
  using assms
proof (induction rows arbitrary: i db pv bvr)
  case Nil
  then show ?case by simp
next
  case (Cons r rows)
  let ?names = "map (\<lambda>c. param_name c i) columns"
  from Cons.prems(1) obtain bv pv1 db1 where
    cols: "for_cols r i columns ([], pv, db) = Inr (bv, pv1, db1)" and
    rest: "for_rows columns (Suc i) rows (db1, pv1, bvr @ [bind_row bv]) = Inr (db', pv', bvr')"
    by (auto split: sum.splits)
  have fresh: "\<forall>c \<in> set columns. param_name c i \<notin> set (keys pv)"
    using Cons.prems(3) by (auto dest!: param_name_inj)
  from for_cols_ok [OF cols Cons.prems(2) fresh] obtain vals where
    bv: "bv = ?names" and db1: "db1 = db @ map (\<lambda>c. declare_stmt c i) columns" and
    pv1: "pv1 = pv @ zip ?names vals" and
    vals: "list_all2 (\<lambda>c x. \<exists>v. map_of r c = Some v \<and> convert c v = Inr x) columns vals"
    by auto
  have len: "length vals = length columns"
    using vals by (simp add: list_all2_lengthD)
  have keys1: "keys pv1 = keys pv @ ?names"
    using len by (simp add: pv1 keys_def)
  have inv: "\<forall>k \<in> set (keys pv1). \<exists>c j. k = param_name c j \<and> j < Suc i"
  proof
    fix k assume "k \<in> set (keys pv1)"
    then consider "k \<in> set (keys pv)" | "k \<in> set ?names"
      by (auto simp: keys1)
    then show "\<exists>c j. k = param_name c j \<and> j < Suc i"
    proof cases
      case 1
      with Cons.prems(3) obtain c j where "k = param_name c j" "j < i" by blast
      then show ?thesis using less_Suc_eq by blast
    next
      case 2
      then show ?thesis by auto
    qed
  qed
  from Cons.IH [OF rest Cons.prems(2) inv] obtain more where
    db': "db' = db1 @ concat (map (\<lambda>j. map (\<lambda>c. declare_stmt c j) columns) [Suc i ..< Suc i + length rows])" and
    bvr': "bvr' = (bvr @ [bind_row bv]) @ map (\<lambda>j. bind_row (map (\<lambda>c. param_name c j) columns)) [Suc i ..< Suc i + length rows]" and
    more: "pv' = pv1 @ more" and
    keys': "keys pv' = keys pv1 @ concat (map (\<lambda>j. map (\<lambda>c. param_name c j) columns) [Suc i ..< Suc i + length rows])" and
    cells: "\<forall>j < length rows. \<forall>c \<in> set columns. \<exists>v x. map_of (rows ! j) c = Some v
              \<and> convert c v = Inr x \<and> map_of pv' (param_name c (Suc i + j)) = Some x"
    by blast
  have upt: "[i ..< i + length (r # rows)] = i # [Suc i ..< Suc i + length rows]"
    by (simp add: upt_rec)
  have c1: "db' = db @ concat (map (\<lambda>j. map (\<lambda>c. declare_stmt c j) columns) [i ..< i + length (r # rows)])"
    unfolding upt by (simp add: db' db1)
  have c2: "bvr' = bvr @ map (\<lambda>j. bind_row (map (\<lambda>c. param_name c j) columns)) [i ..< i + length (r # rows)]"
    unfolding upt by (simp add: bvr' bv)
  have c3: "\<exists>more. pv' = pv @ more"
    by (simp add: more pv1)
  have c4: "keys pv' = keys pv @ concat (map (\<lambda>j. map (\<lambda>c. param_name c j) columns) [i ..< i + length (r # rows)])"
    unfolding upt by (simp add: keys' keys1)
  have inj: "inj_on (\<lambda>c. param_name c i) (set columns)"
    by (auto simp: inj_on_def dest: param_name_inj)
  have first: "\<exists>v x. map_of r c = Some v \<and> convert c v = Inr x \<and> map_of pv' (param_name c i) = Some x"
    if c: "c \<in> set columns" for c
  proof -
    from map_of_zip_names [OF vals Cons.prems(2) c inj] obtain x v where
      x: "map_of (zip ?names vals) (param_name c i) = Some x" and
      v: "map_of r c = Some v" "convert c v = Inr x"
      by blast
    have "map_of pv (param_name c i) = None"
      using fresh c by (simp add: map_of_eq_None_iff keys_def)
    then have "map_of pv1 (param_name c i) = Some x"
      using x by (simp add: pv1 map_add_def)
    then have "map_of pv' (param_name c i) = Some x"
      by (simp add: more map_add_def split: option.splits)
    with v show ?thesis by blast
  qed
  have c5: "\<forall>j < length (r # rows). \<forall>c \<in> set columns. \<exists>v x. map_of ((r # rows) ! j) c = Some v
              \<and> convert c v = Inr x \<and> map_of pv' (param_name c (i + j)) = Some x"
  proof (intro allI impI ballI)
    fix j c assume j: "j < length (r # rows)" and c: "c \<in> set columns"
    show "\<exists>v x. map_of ((r # rows) ! j) c = Some v
              \<and> convert c v = Inr x \<and> map_of pv' (param_name c (i + j)) = Some x"
    proof (cases j)
      case 0
      with first [OF c] show ?thesis by simp
    next
      case (Suc j')
      with j cells c show ?thesis by simp
    qed
  qed
  from c1 c2 c3 c4 c5 show ?case by blast
qed

lemma for_cols_succeeds:
  assumes "\<forall>c \<in> set cols. \<exists>v x. map_of row c = Some v \<and> convert c v = Inr x"
  shows "\<exists>res. for_cols row i cols st = Inr res"
  using assms
proof (induction cols arbitrary: st)
  case Nil
  show ?case by (cases st) auto
next
  case (Cons c cols)
  obtain bv pv db where st: "st = (bv, pv, db)" by (cases st) auto
  from Cons.prems obtain v x where "map_of row c = Some v" "convert c v = Inr x" by auto
  then show ?case
    using Cons.IH Cons.prems by (simp add: st)
qed

lemma for_rows_succeeds:
  assumes "\<forall>row \<in> set rows. \<forall>c \<in> set columns. \<exists>v x. map_of row c = Some v \<and> convert c v = Inr x"
  shows "\<exists>res. for_rows columns i rows st = Inr res"
  using assms
proof (induction rows arbitrary: i st)
  case Nil
  show ?case by (cases st) auto
next
  case (Cons r rows)
  obtain db pv bvr where st: "st = (db, pv, bvr)" by (cases st) auto
  from Cons.prems have "\<forall>c \<in> set columns. \<exists>v x. map_of r c = Some v \<and> convert c v = Inr x"
    by simp
  from for_cols_succeeds [OF this] obtain bv pv1 db1 where
    "for_cols r i columns ([], pv, db) = Inr (bv, pv1, db1)"
    by (metis prod_cases3)
  then show ?case
    using Cons.IH [of "Suc i" "(db1, pv1, bvr @ [bind_row bv])"] Cons.prems by (simp add: st)
qed

lemma concat_map_product:
  "concat (map (\<lambda>i. map (\<lambda>c. g c i) ys) xs) = map (\<lambda>(i, c). g c i) (List.product xs ys)"
  by (induction xs) simp_all

lemma param_names_distinct:
  assumes "distinct columns"
  shows "distinct (concat (map (\<lambda>i. map (\<lambda>c. param_name c i) columns) [0 ..< n]))"
proof -
  have "inj_on (\<lambda>(i, c). param_name c i) (set (List.product [0 ..< n] columns))"
    by (auto simp: inj_on_def dest: param_name_inj)
  then show ?thesis
    using assms by (simp add: concat_map_product distinct_map distinct_product)
qed

lemma uniform_has_cell:
  assumes "set (keys row) = set columns" and "c \<in> set columns"
  shows "\<exists>v. map_of row c = Some v"
proof -
  from assms have "c \<in> fst ` set row" by (simp add: keys_def)
  then show ?thesis by (metis domIff dom_map_of_conv_image_fst not_None_eq)
qed

lemma upset_data_built:
  assumes "data \<noteq> []" and "\<forall>item \<in> set data. set (keys item) = set (keys (hd data))"
    and "for_rows (keys (hd data)) 0 data ([], [], []) = Inr (db, pv, bvr)"
  shows "calls (snd (upset_data table data sp)) =
           calls sp @ Prepare (statement table (keys (hd data)) db bvr)
             # (if refuses sp (Prepare (statement table (keys (hd data)) db bvr)) then []
                else [Execute (statement table (keys (hd data)) db bvr) pv])"
proof -
  from assms(1) obtain first rest where d: "data = first # rest" by (cases data) auto
  from assms(2) have u: "list_all (\<lambda>item. set (keys item) = set (keys first)) data"
    by (simp add: d list_all_iff)
  show ?thesis
    using assms(3) u unfolding upset_data_def
    by (simp add: d prepare_def execute_def Let_def)
qed

text \<open>
  Claim C1, as the code has it. An empty batch makes \<open>data[0]\<close> raise \<open>IndexError\<close>; a batch
  in which some record's key set differs from the first record's key set (compared as sets)
  makes the validation raise \<open>ValueError\<close>. In both cases the session is returned as it
  was: no query has been prepared or executed.
\<close>

theorem upset_data_validation:
  "(data = [] \<longrightarrow> upset_data table data sp = (Inl IndexError, sp)) \<and>
   (data \<noteq> [] \<and> (\<exists>item \<in> set data. set (keys item) \<noteq> set (keys (hd data)))
      \<longrightarrow> upset_data table data sp = (Inl ValueError, sp))"
proof (intro conjI impI)
  assume "data = []"
  then show "upset_data table data sp = (Inl IndexError, sp)"
    by (simp add: upset_data_def)
next
  assume a: "data \<noteq> [] \<and> (\<exists>item \<in> set data. set (keys item) \<noteq> set (keys (hd data)))"
  then obtain first rest where d: "data = first # rest" by (cases data) auto
  from a have "\<not> list_all (\<lambda>item. set (keys item) = set (keys first)) data"
    by (auto simp: d list_all_iff)
  then show "upset_data table data sp = (Inl ValueError, sp)"
    unfolding upset_data_def by (simp add: d Let_def)
qed

theorem upset_data_validation_witness:
  "upset_data ''payments'' [] fresh_session = (Inl IndexError, fresh_session) \<and>
   upset_data ''payments''
     [[(''ID'', Str ''1''), (''X'', Str ''a'')], [(''ID'', Str ''2''), (''Y'', Str ''b'')]]
     fresh_session = (Inl ValueError, fresh_session)"
  using upset_data_validation [of "[]" "''payments''" fresh_session]
    upset_data_validation [of "[[(''ID'', Str ''1''), (''X'', Str ''a'')], [(''ID'', Str ''2''), (''Y'', Str ''b'')]]"
      "''payments''" fresh_session]
  by (simp add: keys_def doubleton_eq_iff)

text \<open>
  The error raised for the empty batch is not the validation error: the code reads the
  first record before it validates anything.
\<close>

theorem upset_data_empty_counterexample:
  "fst (upset_data ''payments'' [] fresh_session) \<noteq> Inl ValueError"
  by (simp add: upset_data_def)




text \<open>
  Claim C2, as the code has it. For a non-empty batch of \<open>n\<close> records with uniform key sets,
  whose first record lists the columns, and whose identifier cells all convert: the first
  call made on the session prepares the text written out below, in which \<open>declare_block\<close>
  holds one declaration per (row, column) cell, \<open>n\<close> times the number of columns in all, over
  pairwise distinct parameter names, each declared \<open>Int64\<close> when the upper-cased column name
  is \<open>ID\<close> and \<open>Utf8\<close> otherwise, and \<open>bind_vars_rows\<close> holds \<open>n\<close> tuples, the \<open>i\<close>-th naming the
  parameters of row \<open>i\<close> in the key order of the first record, which is the column list of
  the \<open>UPSERT\<close>.
\<close>

theorem upset_data_statement_shape:
  assumes "data \<noteq> []"
    and "\<forall>item \<in> set data. set (keys item) = set (keys (hd data))"
    and "distinct (keys (hd data))"
    and "\<forall>row \<in> set data. \<forall>c v. map_of row c = Some v \<and> upper c = ''ID'' \<longrightarrow> (\<exists>k. py_int v = Inr k)"
  shows "\<exists>declare_block bind_vars_rows.
      calls (snd (upset_data table data sp)) ! length (calls sp)
        = Prepare ([CHR 0x0A] @ ''    '' @ join '' '' declare_block @ [CHR 0x0A]
            @ ''    UPSERT INTO `'' @ table @ ''` ('' @ join '', '' (keys (hd data)) @ '')''
            @ [CHR 0x0A] @ ''    VALUES '' @ join '', '' bind_vars_rows @ '';'' @ [CHR 0x0A]
            @ ''    '')
    \<and> declare_block
        = concat (map (\<lambda>i. map (\<lambda>c. ''DECLARE '' @ param_name c i @ '' AS ''
                     @ (if upper c = ''ID'' then ''Int64'' else ''Utf8'') @ '';'')
                   (keys (hd data))) [0 ..< length data])
    \<and> length declare_block = length data * length (keys (hd data))
    \<and> distinct (concat (map (\<lambda>i. map (\<lambda>c. param_name c i) (keys (hd data))) [0 ..< length data]))
    \<and> length bind_vars_rows = length data
    \<and> (\<forall>i < length data. bind_vars_rows ! i
          = ''('' @ join '', '' (map (\<lambda>c. param_name c i) (keys (hd data))) @ '')'')
    \<and> (\<forall>c i. param_name c i = ''$'' @ c @ ''_'' @ string_of_nat i)"
proof -
  let ?cols = "keys (hd data)"
  have "\<exists>v x. map_of row c = Some v \<and> convert c v = Inr x"
    if row: "row \<in> set data" and c: "c \<in> set ?cols" for row c
  proof -
    from assms(2) row have "set (keys row) = set ?cols" by blast
    from uniform_has_cell [OF this c] obtain v where v: "map_of row c = Some v" ..
    show ?thesis
    proof (cases "upper c = ''ID''")
      case True
      with assms(4) row v obtain k where "py_int v = Inr k" by blast
      with True v show ?thesis by (simp add: convert_def)
    next
      case False
      with v show ?thesis by (simp add: convert_def)
    qed
  qed
  then have "\<forall>row \<in> set data. \<forall>c \<in> set ?cols. \<exists>v x. map_of row c = Some v \<and> convert c v = Inr x"
    by blast
  from for_rows_succeeds [OF this, of 0 "([], [], [])"] obtain db pv bvr where
    built: "for_rows ?cols 0 data ([], [], []) = Inr (db, pv, bvr)"
    by (metis prod_cases3)
  have k0: "\<forall>k \<in> set (keys ([] :: pyval dict)). \<exists>c j. k = param_name c j \<and> j < 0"
    by (simp add: keys_def)
  from for_rows_ok [OF built assms(3) k0] have
    db0: "db = concat (map (\<lambda>i. map (\<lambda>c. declare_stmt c i) ?cols) [0 ..< length data])" and
    bvr: "bvr = map (\<lambda>i. bind_row (map (\<lambda>c. param_name c i) ?cols)) [0 ..< length data]"
    by simp_all
  have db: "db = concat (map (\<lambda>i. map (\<lambda>c. ''DECLARE '' @ param_name c i @ '' AS ''
                     @ (if upper c = ''ID'' then ''Int64'' else ''Utf8'') @ '';'')
                   ?cols) [0 ..< length data])"
    unfolding db0 by (simp add: declare_stmt_def ydb_type_def)
  have "calls (snd (upset_data table data sp)) ! length (calls sp)
      = Prepare (statement table ?cols db bvr)"
    by (simp add: upset_data_built [OF assms(1,2) built])
  then have call: "calls (snd (upset_data table data sp)) ! length (calls sp)
      = Prepare ([CHR 0x0A] @ ''    '' @ join '' '' db @ [CHR 0x0A]
            @ ''    UPSERT INTO `'' @ table @ ''` ('' @ join '', '' ?cols @ '')''
            @ [CHR 0x0A] @ ''    VALUES '' @ join '', '' bvr @ '';'' @ [CHR 0x0A]
            @ ''    '')"
    by (simp only: statement_def)
  have len: "length db = length data * length ?cols"
    by (simp add: db0 length_concat comp_def sum_list_triv)
  have tuples: "\<forall>i < length data. bvr ! i
      = ''('' @ join '', '' (map (\<lambda>c. param_name c i) ?cols) @ '')''"
    by (simp add: bvr bind_row_def)
  have names: "\<forall>c i. param_name c i = ''$'' @ c @ ''_'' @ string_of_nat i"
    by (simp add: param_name_def)
  have lb: "length bvr = length data"
    by (simp add: bvr)
  from call db len param_names_distinct [OF assms(3), of "length data"] lb tuples names
  show ?thesis by blast
qed

lemma list_of_length_2: "length xs = 2 \<Longrightarrow> xs = [xs ! 0, xs ! 1]"
  by (cases xs; cases "tl xs") auto

theorem upset_data_statement_shape_witness:
  "calls (snd (upset_data ''payments'' two_records fresh_session)) ! 0
     = Prepare ([CHR 0x0A]
         @ ''    DECLARE $ID_0 AS Int64; DECLARE $NAME_0 AS Utf8; DECLARE $ID_1 AS Int64; DECLARE $NAME_1 AS Utf8;''
         @ [CHR 0x0A] @ ''    UPSERT INTO `payments` (ID, NAME)''
         @ [CHR 0x0A] @ ''    VALUES ($ID_0, $NAME_0), ($ID_1, $NAME_1);''
         @ [CHR 0x0A] @ ''    '')"
proof -
  have h1: "two_records \<noteq> []"
    by (simp add: two_records_def)
  have h2: "\<forall>item \<in> set two_records. set (keys item) = set (keys (hd two_records))"
    by (auto simp: two_records_def keys_def)
  have h3: "distinct (keys (hd two_records))"
    by (simp add: two_records_def keys_def)
  have e: "py_int (Str ''1'') = Inr 1" "py_int (Str ''2'') = Inr 2" "upper ''NAME'' \<noteq> ''ID''"
    by code_simp+
  have h4: "\<forall>row \<in> set two_records. \<forall>c v. map_of row c = Some v \<and> upper c = ''ID''
      \<longrightarrow> (\<exists>k. py_int v = Inr k)"
    using e by (auto simp: two_records_def split: if_splits)
  from upset_data_statement_shape [OF h1 h2 h3 h4, of "''payments''" fresh_session]
  obtain db bvr where
    call: "calls (snd (upset_data ''payments'' two_records fresh_session)) ! length (calls fresh_session)
        = Prepare ([CHR 0x0A] @ ''    '' @ join '' '' db @ [CHR 0x0A]
            @ ''    UPSERT INTO `'' @ ''payments'' @ ''` ('' @ join '', '' (keys (hd two_records)) @ '')''
            @ [CHR 0x0A] @ ''    VALUES '' @ join '', '' bvr @ '';'' @ [CHR 0x0A]
            @ ''    '')" and
    db: "db = concat (map (\<lambda>i. map (\<lambda>c. ''DECLARE '' @ param_name c i @ '' AS ''
                     @ (if upper c = ''ID'' then ''Int64'' else ''Utf8'') @ '';'')
                   (keys (hd two_records))) [0 ..< length two_records])" and
    lb: "length bvr = length two_records" and
    t: "\<forall>i < length two_records. bvr ! i
          = ''('' @ join '', '' (map (\<lambda>c. param_name c i) (keys (hd two_records))) @ '')''"
    by blast
  have n: "length two_records = 2" "length (calls fresh_session) = 0"
    "keys (hd two_records) = [''ID'', ''NAME'']"
    by (simp_all add: two_records_def fresh_session_def keys_def)
  have db': "db = [''DECLARE $ID_0 AS Int64;'', ''DECLARE $NAME_0 AS Utf8;'',
          ''DECLARE $ID_1 AS Int64;'', ''DECLARE $NAME_1 AS Utf8;'']"
    unfolding db by code_simp
  have "''('' @ join '', '' (map (\<lambda>c. param_name c 0) (keys (hd two_records))) @ '')'' = ''($ID_0, $NAME_0)''"
    "''('' @ join '', '' (map (\<lambda>c. param_name c 1) (keys (hd two_records))) @ '')'' = ''($ID_1, $NAME_1)''"
    by code_simp+
  with t n(1) have "bvr ! 0 = ''($ID_0, $NAME_0)''" "bvr ! 1 = ''($ID_1, $NAME_1)''"
    by simp_all
  with list_of_length_2 [of bvr] lb n(1) have bvr': "bvr = [''($ID_0, $NAME_0)'', ''($ID_1, $NAME_1)'']"
    by simp
  show ?thesis
    using call unfolding db' bvr' n by simp
qed

text \<open>
  The second record of \<^const>\<open>two_records\<close> lists its keys as \<open>NAME\<close>, \<open>ID\<close>; its tuple in the
  prepared text is \<open>($ID_1, $NAME_1)\<close>, in the first record's order, not \<open>($NAME_1, $ID_1)\<close>.
\<close>

theorem upset_data_tuple_order_counterexample:
  "keys (two_records ! 1) = [''NAME'', ''ID'']
   \<and> calls (snd (upset_data ''payments'' two_records fresh_session)) ! 0
     = Prepare ([CHR 0x0A]
         @ ''    DECLARE $ID_0 AS Int64; DECLARE $NAME_0 AS Utf8; DECLARE $ID_1 AS Int64; DECLARE $NAME_1 AS Utf8;''
         @ [CHR 0x0A] @ ''    UPSERT INTO `payments` (ID, NAME)''
         @ [CHR 0x0A] @ ''    VALUES ($ID_0, $NAME_0), ($ID_1, $NAME_1);''
         @ [CHR 0x0A] @ ''    '')
   \<and> calls (snd (upset_data ''payments'' two_records fresh_session)) ! 0
     \<noteq> Prepare ([CHR 0x0A]
         @ ''    DECLARE $ID_0 AS Int64; DECLARE $NAME_0 AS Utf8; DECLARE $ID_1 AS Int64; DECLARE $NAME_1 AS Utf8;''
         @ [CHR 0x0A] @ ''    UPSERT INTO `payments` (ID, NAME)''
         @ [CHR 0x0A] @ ''    VALUES ($ID_0, $NAME_0), ($NAME_1, $ID_1);''
         @ [CHR 0x0A] @ ''    '')"
  by code_simp

section \<open>Properties of the CSV export parser\<close>

lemma strptime_error: "strptime s = Inl e \<Longrightarrow> e = ValueError"
  by (auto simp: strptime_def Let_def split: if_splits)

lemma convert_field_error:
  assumes "convert_field key val = Inl e"
  shows "e = ValueError"
proof (cases "strptime val")
  case (Inl e')
  with assms strptime_error [OF Inl] show ?thesis
    by (auto simp: convert_field_def split: if_splits option.splits)
next
  case (Inr dt)
  with assms show ?thesis
    by (auto simp: convert_field_def split: if_splits option.splits)
qed

lemma for_fields_eq:
  "for_fields kvs payment
     = Inr (fold (\<lambda>(key, val). AList.update key (stored_value key val)) kvs payment)"
proof (induction kvs arbitrary: payment)
  case Nil
  show ?case by simp
next
  case (Cons kv kvs)
  obtain key val where kv: "kv = (key, val)" by (cases kv)
  show ?case
  proof (cases "convert_field key val")
    case (Inl e)
    with convert_field_error [OF Inl] show ?thesis
      by (simp add: kv Cons.IH stored_value_def)
  next
    case (Inr v)
    then show ?thesis
      by (simp add: kv Cons.IH stored_value_def)
  qed
qed

lemma for_fields_build: "for_fields (zip header row) [] = Inr (build_payment header row)"
  by (simp add: for_fields_eq build_payment_def)

lemma map_of_fold_update_other:
  "k \<notin> fst ` set kvs \<Longrightarrow>
   map_of (fold (\<lambda>(key, val). AList.update key (f key val)) kvs p) k = map_of p k"
  by (induction kvs arbitrary: p) (auto simp: update_conv')

lemma map_of_fold_update_distinct:
  assumes "distinct (map fst kvs)" and "(k, v) \<in> set kvs"
  shows "map_of (fold (\<lambda>(key, val). AList.update key (f key val)) kvs p) k = Some (f k v)"
  using assms
proof (induction kvs arbitrary: p)
  case Nil
  then show ?case by simp
next
  case (Cons kv kvs)
  show ?case
  proof (cases "kv = (k, v)")
    case True
    with Cons.prems have "k \<notin> fst ` set kvs" by auto
    from map_of_fold_update_other [OF this, of f "AList.update k (f k v) p"] True show ?thesis
      by (simp add: update_conv')
  next
    case False
    with Cons show ?thesis by auto
  qed
qed

lemma map_of_fold_update_cases:
  "map_of (fold (\<lambda>(key, val). AList.update key (f key val)) kvs p) k = Some x \<Longrightarrow>
   map_of p k = Some x \<or> (\<exists>v. (k, v) \<in> set kvs \<and> x = f k v)"
proof (induction kvs arbitrary: p)
  case Nil
  then show ?case by simp
next
  case (Cons kv kvs)
  obtain key val where kv: "kv = (key, val)" by (cases kv)
  from Cons.prems have
    "map_of (fold (\<lambda>(key, val). AList.update key (f key val)) kvs (AList.update key (f key val) p)) k
       = Some x"
    by (simp add: kv)
  from Cons.IH [OF this] show ?case
    by (auto simp: kv update_conv' split: if_splits)
qed

lemma dom_fold_update:
  "fst ` set (fold (\<lambda>(key, val). AList.update key (f key val)) kvs p) = fst ` set p \<union> fst ` set kvs"
proof (induction kvs arbitrary: p)
  case Nil
  show ?case by simp
next
  case (Cons kv kvs)
  obtain key val where kv: "kv = (key, val)" by (cases kv)
  have "fst ` set (AList.update key x p) = insert key (fst ` set p)" for x
    by (induction p) auto
  then show ?case
    by (simp add: kv Cons.IH)
qed

lemma build_payment_cell:
  assumes "distinct header" and "i < length header" and "i < length row"
  shows "map_of (build_payment header row) (header ! i) = Some (stored_value (header ! i) (row ! i))"
proof -
  have "distinct (map fst (zip header row))"
    using assms(1) by (simp add: distinct_take map_fst_zip_take)
  moreover have "(header ! i, row ! i) \<in> set (zip header row)"
    using assms(2,3) by (metis in_set_zip fst_conv snd_conv)
  ultimately show ?thesis
    unfolding build_payment_def by (rule map_of_fold_update_distinct)
qed

lemma build_payment_has_key:
  "(\<exists>v. map_of (build_payment header row) k = Some v) \<longleftrightarrow> k \<in> set (take (length row) header)"
proof -
  have "take (min (length header) (length row)) header = take (length row) header"
    by (cases "length header \<le> length row") (simp_all add: min_def)
  then have "set (map fst (zip header row)) = set (take (length row) header)"
    by (simp add: map_fst_zip_take)
  then have "fst ` set (build_payment header row) = set (take (length row) header)"
    unfolding build_payment_def by (simp add: dom_fold_update)
  then have "dom (map_of (build_payment header row)) = set (take (length row) header)"
    by (simp add: dom_map_of_conv_image_fst)
  then show ?thesis
    by (auto simp: dom_def)
qed

lemma build_payment_plain:
  assumes "map_of (build_payment header row) k = Some x"
    and "k \<notin> {''AMOUNT'', ''ALL_AMOUNT'', ''DATE_OF_USE'', ''SUBSCRIPTION_START'', ''SUBSCRIPTION_END''}"
  shows "\<exists>val \<in> set row. x = Str val"
proof -
  from map_of_fold_update_cases [OF assms(1) [unfolded build_payment_def]]
  obtain v where v: "(k, v) \<in> set (zip header row)" and x: "x = stored_value k v"
    by auto
  from assms(2) have "stored_value k v = Str v"
    by (simp add: stored_value_def convert_field_def)
  with v x show ?thesis
    by (auto dest: set_zip_rightD)
qed

lemma for_reader_rows_standard:
  "for_reader_rows dt False header rows acc
     = Inr (acc @ map (build_payment header)
         (filter (\<lambda>row. data_row row \<and> truthy (map_of (build_payment header row) ''ID'')) rows))"
  by (induction rows arbitrary: acc) (simp_all add: for_fields_build data_row_def)

lemma premium_fields_ok:
  assumes "map_of p ''MEMBER_ID'' = Some (Str member_id)"
  shows "premium_fields dt p
     = Inr (AList.update ''DATE_PARSE'' (Str (strftime dt ''%Y-%m-01''))
            (AList.update ''hash'' (Str (sha256_hex (member_id @ strftime dt ''01-%m-%Y''))) p))"
  using assms by (simp add: premium_fields_def)

lemma premium_fields_missing:
  "map_of p ''MEMBER_ID'' = None \<Longrightarrow> premium_fields dt p = Inl KeyError"
  by (simp add: premium_fields_def)

lemma member_id_is_str:
  assumes "''MEMBER_ID'' \<in> set (take (length row) header)"
  shows "\<exists>member_id. map_of (build_payment header row) ''MEMBER_ID'' = Some (Str member_id)"
proof -
  from assms build_payment_has_key [of header row "''MEMBER_ID''"]
  obtain v where v: "map_of (build_payment header row) ''MEMBER_ID'' = Some v" by blast
  from build_payment_plain [OF v] show ?thesis
    using v by auto
qed

lemma for_reader_rows_premium:
  assumes "\<forall>row \<in> set rows. data_row row \<longrightarrow> ''MEMBER_ID'' \<in> set (take (length row) header)"
  shows "\<exists>payments. for_reader_rows dt True header rows acc = Inr (acc @ payments)
      \<and> list_all2 (\<lambda>row p. premium_fields dt (build_payment header row) = Inr p)
           (filter data_row rows) payments"
  using assms
proof (induction rows arbitrary: acc)
  case Nil
  then show ?case by simp
next
  case (Cons row rows)
  show ?case
  proof (cases "data_row row")
    case False
    with Cons show ?thesis by (simp add: data_row_def)
  next
    case True
    with Cons.prems member_id_is_str obtain member_id where
      "map_of (build_payment header row) ''MEMBER_ID'' = Some (Str member_id)"
      by (metis list.set_intros(1))
    from premium_fields_ok [OF this, of dt] obtain p where
      p: "premium_fields dt (build_payment header row) = Inr p"
      by blast
    from Cons.IH [of "acc @ [p]"] Cons.prems obtain payments where
      "for_reader_rows dt True header rows (acc @ [p]) = Inr ((acc @ [p]) @ payments)"
      "list_all2 (\<lambda>row p. premium_fields dt (build_payment header row) = Inr p)
           (filter data_row rows) payments"
      by auto
    moreover have "\<not> length row \<le> 1"
      using True by (simp add: data_row_def)
    ultimately show ?thesis
      using True p by (intro exI [of _ "p # payments"]) (simp add: for_fields_build)
  qed
qed

lemma for_reader_rows_premium_fails:
  assumes "row \<in> set rows" and "data_row row" and "''MEMBER_ID'' \<notin> set (take (length row) header)"
  shows "for_reader_rows dt True header rows acc = Inl KeyError"
  using assms(1)
proof (induction rows arbitrary: acc)
  case Nil
  then show ?case by simp
next
  case (Cons r rows)
  have miss: "premium_fields dt (build_payment header row) = Inl KeyError"
    using assms(3) build_payment_has_key [of header row "''MEMBER_ID''"]
    by (intro premium_fields_missing) (cases "map_of (build_payment header row) ''MEMBER_ID''", auto)
  show ?case
  proof (cases "r = row")
    case True
    with assms(2) miss show ?thesis
      by (simp add: for_fields_build data_row_def)
  next
    case False
    with Cons.prems have in_rows: "row \<in> set rows" by simp
    show ?thesis
    proof (cases "data_row r")
      case False
      with Cons.IH [OF in_rows] show ?thesis by (simp add: data_row_def)
    next
      case True
      show ?thesis
      proof (cases "premium_fields dt (build_payment header r)")
        case (Inl e)
        then have "e = KeyError"
          using build_payment_plain [of header r "''MEMBER_ID''"]
          by (auto simp: premium_fields_def split: option.splits pyval.splits)
        with Inl True show ?thesis
          by (simp add: for_fields_build data_row_def)
      next
        case (Inr p)
        with True Cons.IH [OF in_rows] show ?thesis
          by (simp add: for_fields_build data_row_def)
      qed
    qed
  qed
qed

lemma strftime_date_parse:
  "strftime dt ''%Y-%m-01'' = string_of_nat (year dt) @ ''-'' @ pad2 (month dt) @ ''-01''"
  by simp

lemma strftime_hash_suffix:
  "strftime dt ''01-%m-%Y'' = ''01-'' @ pad2 (month dt) @ ''-'' @ string_of_nat (year dt)"
  by simp

lemma strftime_iso:
  "strftime dt ''%Y-%m-%d'' = string_of_nat (year dt) @ ''-'' @ pad2 (month dt) @ ''-'' @ pad2 (day dt)"
  by simp

lemmas csv_defs = csv_reader_def parse_reset_def parse_process_char_def start_field_def
  end_of_field_def parse_save_field_def parse_add_char_def set_state_def field_limit_def
  LF_def CR_def

lemma truthy_id:
  "truthy (map_of (build_payment header row) ''ID'')
     \<longleftrightarrow> (\<exists>ident. map_of (build_payment header row) ''ID'' = Some (Str ident) \<and> ident \<noteq> [])"
proof (cases "map_of (build_payment header row) ''ID''")
  case None
  then show ?thesis by (simp add: truthy_def)
next
  case (Some v)
  from build_payment_plain [OF Some] obtain val where "v = Str val" by auto
  with Some show ?thesis by (simp add: truthy_def)
qed

lemma for_reader_rows_no_data:
  "\<forall>row \<in> set rows. \<not> data_row row \<Longrightarrow> for_reader_rows dt is_premium header rows acc = Inr acc"
  by (induction rows arbitrary: acc) (auto simp: data_row_def)

text \<open>
  Claim C5. In standard-report parsing the output is, in order, the records of exactly those
  data rows whose record carries a non-empty \<open>ID\<close> string. A field whose conversion fails
  stays in the record with its raw string, and the row is kept or dropped by its \<open>ID\<close> alone.
\<close>

theorem parse_standard_keeps_rows_with_id:
  assumes "csv_reader content = (first # rows, None)"
  shows "parse_csv_payments dt content False
           = Inr (map (build_payment (butlast first))
               (filter (\<lambda>row. data_row row
                  \<and> (\<exists>ident. map_of (build_payment (butlast first) row) ''ID'' = Some (Str ident)
                        \<and> ident \<noteq> [])) rows))
       \<and> (\<forall>row i. distinct (butlast first) \<and> i < length (butlast first) \<and> i < length row
            \<longrightarrow> map_of (build_payment (butlast first) row) (butlast first ! i)
                 = Some (case convert_field (butlast first ! i) (row ! i) of
                           Inr v \<Rightarrow> v | Inl e \<Rightarrow> Str (row ! i)))"
proof
  show "parse_csv_payments dt content False
           = Inr (map (build_payment (butlast first))
               (filter (\<lambda>row. data_row row
                  \<and> (\<exists>ident. map_of (build_payment (butlast first) row) ''ID'' = Some (Str ident)
                        \<and> ident \<noteq> [])) rows))"
    by (simp add: parse_csv_payments_def assms for_reader_rows_standard truthy_id)
next
  show "\<forall>row i. distinct (butlast first) \<and> i < length (butlast first) \<and> i < length row
            \<longrightarrow> map_of (build_payment (butlast first) row) (butlast first ! i)
                 = Some (case convert_field (butlast first ! i) (row ! i) of
                           Inr v \<Rightarrow> v | Inl e \<Rightarrow> Str (row ! i))"
    using build_payment_cell by (simp add: stored_value_def)
qed

text \<open>
  Claim C9. A body from which the reader returns a header row and then no data row (nothing,
  or rows of at most one field such as blank lines) parses to the empty list, in both modes.
\<close>

theorem parse_header_only:
  assumes "csv_reader content = (first # rows, None)" and "\<forall>row \<in> set rows. \<not> data_row row"
  shows "parse_csv_payments dt content is_premium = Inr []"
  by (simp add: parse_csv_payments_def assms(1) for_reader_rows_no_data [OF assms(2)])

theorem parse_header_only_witness:
  "parse_csv_payments run_date (''ID;AMOUNT;'' @ [LF]) False = Inr []
   \<and> parse_csv_payments run_date (''MEMBER_ID;AMOUNT;'' @ [LF] @ [LF]) True = Inr []"
proof
  have r: "csv_reader (''ID;AMOUNT;'' @ [LF]) = ([''ID'', ''AMOUNT'', ''''] # [], None)"
    by (simp add: csv_defs)
  show "parse_csv_payments run_date (''ID;AMOUNT;'' @ [LF]) False = Inr []"
    by (rule parse_header_only [OF r]) simp
next
  have r: "csv_reader (''MEMBER_ID;AMOUNT;'' @ [LF] @ [LF]) = ([''MEMBER_ID'', ''AMOUNT'', ''''] # [[]], None)"
    by (simp add: csv_defs)
  show "parse_csv_payments run_date (''MEMBER_ID;AMOUNT;'' @ [LF] @ [LF]) True = Inr []"
    by (rule parse_header_only [OF r]) (simp add: data_row_def)
qed

lemma float_of_str_abc: "float_of_str ''abc'' = None"
  by (simp add: float_of_str_def num_strip_def num_space_def split_sign_def parse_decimal_def
      is_digit_def lower_def)

theorem parse_standard_keeps_rows_with_id_witness:
  "parse_csv_payments run_date
      (''ID;AMOUNT;X;'' @ [LF] @ ''1;abc;foo;'' @ [LF] @ '';5;bar;'' @ [LF]) False
     = Inr [[(''ID'', Str ''1''), (''AMOUNT'', Str ''abc''), (''X'', Str ''foo'')]]
   \<and> map_of (build_payment [''ID'', ''AMOUNT'', ''X''] [''1'', ''abc'', ''foo'', '''']) ''AMOUNT''
     = Some (Str ''abc'')"
proof -
  let ?content = "''ID;AMOUNT;X;'' @ [LF] @ ''1;abc;foo;'' @ [LF] @ '';5;bar;'' @ [LF]"
  have r: "csv_reader ?content
      = ([''ID'', ''AMOUNT'', ''X'', ''''] # [[''1'', ''abc'', ''foo'', ''''], ['''', ''5'', ''bar'', '''']], None)"
    by (simp add: csv_defs)
  have c: "convert_field ''AMOUNT'' ''abc'' = Inl ValueError"
    by (simp add: convert_field_def float_of_str_abc)
  have f5: "float_of_str ''5'' = Some (binary64 5)"
    by (simp add: float_of_str_def num_strip_def num_space_def split_sign_def parse_decimal_def
      parse_exponent_def is_digit_def digit_val_def lower_def pow10_def)
  have b1: "build_payment [''ID'', ''AMOUNT'', ''X''] [''1'', ''abc'', ''foo'', '''']
      = [(''ID'', Str ''1''), (''AMOUNT'', Str ''abc''), (''X'', Str ''foo'')]"
    by (simp add: build_payment_def stored_value_def c) (simp add: convert_field_def)
  have b2: "build_payment [''ID'', ''AMOUNT'', ''X''] ['''', ''5'', ''bar'', '''']
      = [(''ID'', Str ''''), (''AMOUNT'', Float (binary64 5)), (''X'', Str ''bar'')]"
    by (simp add: build_payment_def stored_value_def convert_field_def f5)
  note inst = parse_standard_keeps_rows_with_id [OF r, of run_date]
  have first: "parse_csv_payments run_date ?content False
     = Inr [[(''ID'', Str ''1''), (''AMOUNT'', Str ''abc''), (''X'', Str ''foo'')]]"
    using inst [THEN conjunct1] by (simp add: b1 b2 data_row_def)
  have "distinct (butlast [''ID'', ''AMOUNT'', ''X'', '''']) \<and> 1 < length (butlast [''ID'', ''AMOUNT'', ''X'', ''''])
      \<and> 1 < length [''1'', ''abc'', ''foo'', '''']"
    by simp
  from inst [THEN conjunct2, rule_format, OF this]
  have "map_of (build_payment [''ID'', ''AMOUNT'', ''X''] [''1'', ''abc'', ''foo'', '''']) ''AMOUNT''
     = Some (Str ''abc'')"
    by (simp add: c)
  with first show ?thesis by simp
qed

text \<open>
  Claim C6, as the code has it. In premium-report parsing, when every data row reaches the
  \<open>MEMBER_ID\<close> column, the output holds one record per data row, in order, with no filtering
  by identifier: the row's record with \<open>hash\<close> and \<open>DATE_PARSE\<close> set, \<open>DATE_PARSE\<close> being the
  year and month of the run's reference date followed by \<open>-01\<close>. A data row whose record has
  no \<open>MEMBER_ID\<close> makes the parse raise \<open>KeyError\<close>.
\<close>

theorem parse_premium_keeps_data_rows:
  assumes "csv_reader content = (first # rows, None)"
  shows "((\<forall>row \<in> set rows. data_row row \<longrightarrow> ''MEMBER_ID'' \<in> set (take (length row) (butlast first)))
          \<longrightarrow> (\<exists>payments. parse_csv_payments dt content True = Inr payments
                \<and> list_all2
                     (\<lambda>row p. \<exists>member_id.
                        map_of (build_payment (butlast first) row) ''MEMBER_ID'' = Some (Str member_id)
                        \<and> p = AList.update ''DATE_PARSE''
                                (Str (string_of_nat (year dt) @ ''-'' @ pad2 (month dt) @ ''-01''))
                                (AList.update ''hash''
                                   (Str (sha256_hex (member_id @ ''01-'' @ pad2 (month dt) @ ''-''
                                           @ string_of_nat (year dt))))
                                   (build_payment (butlast first) row)))
                     (filter data_row rows) payments))
       \<and> ((\<exists>row \<in> set rows. data_row row \<and> ''MEMBER_ID'' \<notin> set (take (length row) (butlast first)))
          \<longrightarrow> parse_csv_payments dt content True = Inl KeyError)"
proof (intro conjI impI)
  let ?header = "butlast first"
  assume a: "\<forall>row \<in> set rows. data_row row \<longrightarrow> ''MEMBER_ID'' \<in> set (take (length row) ?header)"
  from for_reader_rows_premium [OF a, of dt "[]"] obtain payments where
    run: "for_reader_rows dt True ?header rows [] = Inr payments" and
    each: "list_all2 (\<lambda>row p. premium_fields dt (build_payment ?header row) = Inr p)
           (filter data_row rows) payments"
    by auto
  have "\<exists>member_id. map_of (build_payment ?header row) ''MEMBER_ID'' = Some (Str member_id)
          \<and> p = AList.update ''DATE_PARSE''
                  (Str (string_of_nat (year dt) @ ''-'' @ pad2 (month dt) @ ''-01''))
                  (AList.update ''hash''
                     (Str (sha256_hex (member_id @ ''01-'' @ pad2 (month dt) @ ''-''
                             @ string_of_nat (year dt))))
                     (build_payment ?header row))"
    if row: "row \<in> set (filter data_row rows)" and p: "premium_fields dt (build_payment ?header row) = Inr p"
    for row p
  proof -
    from row a have "''MEMBER_ID'' \<in> set (take (length row) ?header)" by simp
    from member_id_is_str [OF this] obtain member_id where
      m: "map_of (build_payment ?header row) ''MEMBER_ID'' = Some (Str member_id)" ..
    from premium_fields_ok [OF m, of dt] p m show ?thesis
      by (simp only: strftime_date_parse strftime_hash_suffix) auto
  qed
  with each have "list_all2
       (\<lambda>row p. \<exists>member_id.
          map_of (build_payment ?header row) ''MEMBER_ID'' = Some (Str member_id)
          \<and> p = AList.update ''DATE_PARSE''
                  (Str (string_of_nat (year dt) @ ''-'' @ pad2 (month dt) @ ''-01''))
                  (AList.update ''hash''
                     (Str (sha256_hex (member_id @ ''01-'' @ pad2 (month dt) @ ''-''
                             @ string_of_nat (year dt))))
                     (build_payment ?header row)))
       (filter data_row rows) payments"
    by (rule list.rel_mono_strong)
  moreover have "parse_csv_payments dt content True = Inr payments"
    by (simp add: parse_csv_payments_def assms run)
  ultimately show "\<exists>payments. parse_csv_payments dt content True = Inr payments
      \<and> list_all2
           (\<lambda>row p. \<exists>member_id.
              map_of (build_payment ?header row) ''MEMBER_ID'' = Some (Str member_id)
              \<and> p = AList.update ''DATE_PARSE''
                      (Str (string_of_nat (year dt) @ ''-'' @ pad2 (month dt) @ ''-01''))
                      (AList.update ''hash''
                         (Str (sha256_hex (member_id @ ''01-'' @ pad2 (month dt) @ ''-''
                                 @ string_of_nat (year dt))))
                         (build_payment ?header row)))
           (filter data_row rows) payments"
    by blast
next
  assume "\<exists>row \<in> set rows. data_row row \<and> ''MEMBER_ID'' \<notin> set (take (length row) (butlast first))"
  then obtain row where "row \<in> set rows" "data_row row"
    "''MEMBER_ID'' \<notin> set (take (length row) (butlast first))"
    by blast
  from for_reader_rows_premium_fails [OF this, of dt "[]"]
  show "parse_csv_payments dt content True = Inl KeyError"
    by (simp add: parse_csv_payments_def assms)
qed

lemma run_date_strings:
  "string_of_nat (year run_date) = ''2024''" "pad2 (month run_date) = ''07''"
  by code_simp+

theorem parse_premium_keeps_data_rows_witness:
  "parse_csv_payments run_date (''MEMBER_ID;X;'' @ [LF] @ ''42;a;'' @ [LF]) True
     = Inr [[(''MEMBER_ID'', Str ''42''), (''X'', Str ''a''),
             (''hash'', Str (sha256_hex ''4201-07-2024'')), (''DATE_PARSE'', Str ''2024-07-01'')]]
   \<and> parse_csv_payments run_date (''X;Y;'' @ [LF] @ ''1;2;'' @ [LF]) True = Inl KeyError"
proof
  let ?content = "''MEMBER_ID;X;'' @ [LF] @ ''42;a;'' @ [LF]"
  have r: "csv_reader ?content = ([''MEMBER_ID'', ''X'', ''''] # [[''42'', ''a'', '''']], None)"
    by (simp add: csv_defs)
  have b: "build_payment [''MEMBER_ID'', ''X''] [''42'', ''a'', '''']
      = [(''MEMBER_ID'', Str ''42''), (''X'', Str ''a'')]"
    by (simp add: build_payment_def stored_value_def convert_field_def)
  have h: "\<forall>row \<in> set [[''42'', ''a'', '''']]. data_row row
      \<longrightarrow> ''MEMBER_ID'' \<in> set (take (length row) (butlast [''MEMBER_ID'', ''X'', '''']))"
    by simp
  from parse_premium_keeps_data_rows [OF r, of run_date, THEN conjunct1, THEN mp, OF h]
  obtain payments where
    p: "parse_csv_payments run_date ?content True = Inr payments" and
    l: "list_all2
         (\<lambda>row p. \<exists>member_id.
            map_of (build_payment (butlast [''MEMBER_ID'', ''X'', '''']) row) ''MEMBER_ID''
              = Some (Str member_id)
            \<and> p = AList.update ''DATE_PARSE''
                    (Str (string_of_nat (year run_date) @ ''-'' @ pad2 (month run_date) @ ''-01''))
                    (AList.update ''hash''
                       (Str (sha256_hex (member_id @ ''01-'' @ pad2 (month run_date) @ ''-''
                               @ string_of_nat (year run_date))))
                       (build_payment (butlast [''MEMBER_ID'', ''X'', '''']) row)))
         (filter data_row [[''42'', ''a'', '''']]) payments"
    by blast
  from l have "payments = [[(''MEMBER_ID'', Str ''42''), (''X'', Str ''a''),
             (''hash'', Str (sha256_hex ''4201-07-2024'')), (''DATE_PARSE'', Str ''2024-07-01'')]]"
    by (auto simp: data_row_def b run_date_strings list_all2_Cons1)
  with p show "parse_csv_payments run_date ?content True
     = Inr [[(''MEMBER_ID'', Str ''42''), (''X'', Str ''a''),
             (''hash'', Str (sha256_hex ''4201-07-2024'')), (''DATE_PARSE'', Str ''2024-07-01'')]]"
    by simp
next
  let ?content = "''X;Y;'' @ [LF] @ ''1;2;'' @ [LF]"
  have r: "csv_reader ?content = ([''X'', ''Y'', ''''] # [[''1'', ''2'', '''']], None)"
    by (simp add: csv_defs)
  have h: "\<exists>row \<in> set [[''1'', ''2'', '''']]. data_row row
      \<and> ''MEMBER_ID'' \<notin> set (take (length row) (butlast [''X'', ''Y'', '''']))"
    by (simp add: data_row_def)
  from parse_premium_keeps_data_rows [OF r, of run_date, THEN conjunct2, THEN mp, OF h]
  show "parse_csv_payments run_date ?content True = Inl KeyError" .
qed

text \<open>
  A premium export whose data row has no \<open>MEMBER_ID\<close> column is not kept: the parse raises.
\<close>

theorem parse_premium_without_member_counterexample:
  "parse_csv_payments run_date (''ID;X;'' @ [LF] @ ''1;2;'' @ [LF]) True = Inl KeyError"
proof -
  have r: "csv_reader (''ID;X;'' @ [LF] @ ''1;2;'' @ [LF]) = ([''ID'', ''X'', ''''] # [[''1'', ''2'', '''']], None)"
    by (simp add: csv_defs)
  have b: "build_payment [''ID'', ''X''] [''1'', ''2'', '''']
      = [(''ID'', Str ''1''), (''X'', Str ''2'')]"
    by (simp add: build_payment_def stored_value_def convert_field_def)
  show ?thesis
    unfolding parse_csv_payments_def r
    by (simp add: convert_field_def premium_fields_def)
qed

lemma length_string_of_nat_small: "n < 10 \<Longrightarrow> length (string_of_nat n) = 1"
  by (simp add: string_of_nat.simps [of n])

lemma length_pad2: "n < 100 \<Longrightarrow> length (pad2 n) = 2"
proof (cases "n < 10")
  case True
  then show ?thesis by (simp add: pad2_def length_string_of_nat_small)
next
  case False
  assume "n < 100"
  then have "n div 10 < 10" by simp
  with False show ?thesis
    by (simp add: pad2_def string_of_nat.simps [of n] length_string_of_nat_small)
qed

lemma digits_val_pad2: "digits_val 0 (pad2 n) = n"
  by (simp add: pad2_def digits_val_string_of_nat digit_val_def)

lemma pad2_inj: "pad2 m = pad2 n \<Longrightarrow> m = n"
  by (metis digits_val_pad2)

lemma dash_not_digit: "\<not> is_digit (CHR ''-'')"
  by (simp add: is_digit_def)

lemma hash_source_inj:
  assumes "member_id @ ''01-'' @ pad2 m @ ''-'' @ string_of_nat y
         = member_id' @ ''01-'' @ pad2 m' @ ''-'' @ string_of_nat y'"
    and "m < 100" and "m' < 100"
  shows "member_id = member_id' \<and> m = m' \<and> y = y'"
proof -
  have n: "CHR ''-'' \<notin> set (string_of_nat k)" for k
    using string_of_nat_digits dash_not_digit by blast
  from assms(1) have "(member_id @ ''01-'' @ pad2 m) @ CHR ''-'' # string_of_nat y
      = (member_id' @ ''01-'' @ pad2 m') @ CHR ''-'' # string_of_nat y'"
    by simp
  from split_at_last [OF this n n] have
    pre: "member_id @ ''01-'' @ pad2 m = member_id' @ ''01-'' @ pad2 m'" and
    y: "string_of_nat y = string_of_nat y'"
    by simp_all
  from pre have "(member_id @ ''01-'') @ pad2 m = (member_id' @ ''01-'') @ pad2 m'"
    by simp
  moreover have "length (pad2 m) = length (pad2 m')"
    using assms(2,3) by (simp add: length_pad2)
  ultimately have "member_id @ ''01-'' = member_id' @ ''01-'' \<and> pad2 m = pad2 m'"
    by (metis append_eq_append_conv)
  then show ?thesis
    using y by (auto dest: pad2_inj string_of_nat_inj)
qed

text \<open>
  Claim C4, as the code has it. The \<open>hash\<close> of a premium record is the SHA-256 hex digest of
  the member identifier followed by \<open>01-\<close>, the two-digit month, \<open>-\<close> and the year of the
  reference date. It is a function of the member identifier, the month and the year (the day
  of the reference date plays no part), and the hashed string determines all three.
\<close>

theorem premium_hash:
  assumes "map_of payment ''MEMBER_ID'' = Some (Str member_id)"
  shows "(\<exists>payment'. premium_fields dt payment = Inr payment'
            \<and> map_of payment' ''hash''
                = Some (Str (sha256_hex (member_id @ ''01-'' @ pad2 (month dt) @ ''-''
                     @ string_of_nat (year dt)))))
       \<and> (month dt < 100 \<and> month dt' < 100 \<longrightarrow>
            (member_id @ ''01-'' @ pad2 (month dt) @ ''-'' @ string_of_nat (year dt)
               = member_id' @ ''01-'' @ pad2 (month dt') @ ''-'' @ string_of_nat (year dt')
             \<longleftrightarrow> member_id = member_id' \<and> month dt = month dt' \<and> year dt = year dt'))"
proof (intro conjI impI)
  from premium_fields_ok [OF assms, of dt]
  show "\<exists>payment'. premium_fields dt payment = Inr payment'
            \<and> map_of payment' ''hash''
                = Some (Str (sha256_hex (member_id @ ''01-'' @ pad2 (month dt) @ ''-''
                     @ string_of_nat (year dt))))"
    by (simp add: update_conv')
next
  assume "month dt < 100 \<and> month dt' < 100"
  then show "member_id @ ''01-'' @ pad2 (month dt) @ ''-'' @ string_of_nat (year dt)
               = member_id' @ ''01-'' @ pad2 (month dt') @ ''-'' @ string_of_nat (year dt')
             \<longleftrightarrow> member_id = member_id' \<and> month dt = month dt' \<and> year dt = year dt'"
    using hash_source_inj [of member_id "month dt" "year dt" member_id' "month dt'" "year dt'"]
    by auto
qed

theorem premium_hash_witness:
  "(\<exists>payment'. premium_fields run_date [(''MEMBER_ID'', Str ''42'')] = Inr payment'
      \<and> map_of payment' ''hash'' = Some (Str (sha256_hex ''4201-07-2024'')))
   \<and> ''4201-07-2024'' \<noteq> ''4301-07-2024''"
proof -
  have m: "map_of [(''MEMBER_ID'', Str ''42'')] ''MEMBER_ID'' = Some (Str ''42'')"
    by simp
  have s: "string_of_nat (year run_date) = ''2024''" "pad2 (month run_date) = ''07''"
    "month run_date < 100 \<and> month run_date < 100"
    by code_simp+
  from premium_hash [OF m, of run_date run_date "''43''"] s show ?thesis
    by simp
qed

text \<open>
  Two reference dates in the same month differ and give the same \<open>hash\<close>.
\<close>

theorem premium_hash_same_month_counterexample:
  "\<lparr>year = 2024, month = 7, day = 15\<rparr> \<noteq> \<lparr>year = 2024, month = 7, day = 16\<rparr>
   \<and> premium_fields \<lparr>year = 2024, month = 7, day = 15\<rparr> [(''MEMBER_ID'', Str ''42'')]
     = premium_fields \<lparr>year = 2024, month = 7, day = 16\<rparr> [(''MEMBER_ID'', Str ''42'')]"
  by (simp add: premium_fields_def)











section \<open>Properties of the paginated listings\<close>



lemma for_pages_failed:
  assumes "\<forall>page \<in> set pre. \<exists>doc. server page = Page doc \<and> body doc = Inr (Extend (rows_of page))"
    and "server k = Failed"
  shows "for_pages body server (pre @ k # post) (result, fetched)
     = (Inr (result @ concat (map rows_of pre)), fetched @ pre @ [k])"
  using assms(1)
proof (induction pre arbitrary: result fetched)
  case Nil
  then show ?case by (simp add: assms(2))
next
  case (Cons page pre)
  from Cons.prems obtain doc where "server page = Page doc" "body doc = Inr (Extend (rows_of page))"
    by auto
  with Cons.IH [of "result @ rows_of page" "fetched @ [page]"] Cons.prems show ?case
    by simp
qed

lemma app_page_populated: "app_populated doc \<Longrightarrow> app_page doc = Inr (Extend (app_rows (the doc)))"
  by (auto simp: app_populated_def app_page_def split: option.splits)

lemma client_page_populated:
  "client_populated doc \<Longrightarrow> client_page doc = Inr (Extend (client_data (the doc)))"
  by (auto simp: client_populated_def client_page_def split: option.splits)




lemma mock_tables_populated:
  "app_populated (Some mock_app_table)" "client_populated (Some mock_client_table)"
  by code_simp+

lemma mock_rows:
  "app_rows mock_app_table = [[(''Name'', ''A''), (''id'', ''17'')], [(''Name'', ''B'')]]"
  "client_data mock_client_table = [[(''Client'', ''Client'')], [(''Client'', ''C'')]]"
  by code_simp+


lemma pages_split:
  assumes "1 \<le> k" and "k \<le> max_pages"
  shows "[1 ..< max_pages + 1] = [1 ..< k] @ k # [Suc k ..< max_pages + 1]"
proof -
  have "[1 ..< max_pages + 1] = [1 ..< k] @ [k ..< max_pages + 1]"
    using assms by (metis le_add2 le_trans upt_add_eq_append le_Suc_ex add.commute)
  also have "[k ..< max_pages + 1] = k # [Suc k ..< max_pages + 1]"
    using assms by (simp add: upt_conv_Cons del: upt_Suc)
  finally show ?thesis .
qed

text \<open>
  Claim C8. When the request for page \<open>k\<close> fails, the pages before it being populated, either
  scraper returns normally, with the rows of the pages 1 to \<open>k - 1\<close> in order, having
  fetched the pages 1 to \<open>k\<close>.
\<close>

theorem scrapers_return_partial_results:
  assumes "1 \<le> k" and "k \<le> max_pages"
  shows "((\<forall>page \<in> {1 ..< k}. apps page = Page (Some (tables page))
             \<and> app_populated (Some (tables page))) \<and> apps k = Failed
          \<longrightarrow> get_app_list apps
              = (Inr (concat (map (\<lambda>page. app_rows (tables page)) [1 ..< k])), [1 ..< Suc k]))
       \<and> ((\<forall>page \<in> {1 ..< k}. clients app_id page = Page (Some (ctables page))
             \<and> client_populated (Some (ctables page))) \<and> clients app_id k = Failed
          \<longrightarrow> get_client_list clients app_id
              = (Inr (concat (map (\<lambda>page. client_data (ctables page)) [1 ..< k])), [1 ..< Suc k]))"
proof (intro conjI impI)
  assume a: "(\<forall>page \<in> {1 ..< k}. apps page = Page (Some (tables page))
             \<and> app_populated (Some (tables page))) \<and> apps k = Failed"
  have "\<forall>page \<in> set [1 ..< k]. \<exists>doc. apps page = Page doc
      \<and> app_page doc = Inr (Extend (app_rows (tables page)))"
  proof
    fix page assume "page \<in> set [1 ..< k]"
    then have "page \<in> {1 ..< k}" by auto
    with a have "apps page = Page (Some (tables page))" "app_populated (Some (tables page))"
      by blast+
    with app_page_populated [of "Some (tables page)"]
    show "\<exists>doc. apps page = Page doc \<and> app_page doc = Inr (Extend (app_rows (tables page)))"
      by simp
  qed
  from for_pages_failed [OF this, of k "[Suc k ..< max_pages + 1]" "[]" "[]"] a
  show "get_app_list apps
      = (Inr (concat (map (\<lambda>page. app_rows (tables page)) [1 ..< k])), [1 ..< Suc k])"
    unfolding get_app_list_def pages_split [OF assms] using assms(1) by simp
next
  assume a: "(\<forall>page \<in> {1 ..< k}. clients app_id page = Page (Some (ctables page))
             \<and> client_populated (Some (ctables page))) \<and> clients app_id k = Failed"
  have "\<forall>page \<in> set [1 ..< k]. \<exists>doc. clients app_id page = Page doc
      \<and> client_page doc = Inr (Extend (client_data (ctables page)))"
  proof
    fix page assume "page \<in> set [1 ..< k]"
    then have "page \<in> {1 ..< k}" by auto
    with a have "clients app_id page = Page (Some (ctables page))"
      "client_populated (Some (ctables page))"
      by blast+
    with client_page_populated [of "Some (ctables page)"]
    show "\<exists>doc. clients app_id page = Page doc
        \<and> client_page doc = Inr (Extend (client_data (ctables page)))"
      by simp
  qed
  from for_pages_failed [OF this, of k "[Suc k ..< max_pages + 1]" "[]" "[]"] a
  show "get_client_list clients app_id
      = (Inr (concat (map (\<lambda>page. client_data (ctables page)) [1 ..< k])), [1 ..< Suc k])"
    unfolding get_client_list_def pages_split [OF assms] using assms(1) by simp
qed

theorem scrapers_return_partial_results_witness:
  "get_app_list failing_apps
     = (Inr [[(''Name'', ''A''), (''id'', ''17'')], [(''Name'', ''B'')],
             [(''Name'', ''A''), (''id'', ''17'')], [(''Name'', ''B'')]], [1, 2, 3])
   \<and> get_client_list failing_clients ''17''
     = (Inr [[(''Client'', ''Client'')], [(''Client'', ''C'')],
             [(''Client'', ''Client'')], [(''Client'', ''C'')]], [1, 2, 3])"
proof -
  have k: "1 \<le> (3::nat)" "3 \<le> max_pages"
    by (simp_all add: max_pages_def)
  have a: "(\<forall>page \<in> {1 ..< 3}. failing_apps page = Page (Some mock_app_table)
             \<and> app_populated (Some mock_app_table)) \<and> failing_apps 3 = Failed"
    by (simp add: failing_apps_def mock_tables_populated)
  have c: "(\<forall>page \<in> {1 ..< 3}. failing_clients ''17'' page = Page (Some mock_client_table)
             \<and> client_populated (Some mock_client_table)) \<and> failing_clients ''17'' 3 = Failed"
    by (simp add: failing_clients_def mock_tables_populated)
  have u: "[1 ..< (3::nat)] = [1, 2]" "[1 ..< Suc 3] = [1, 2, 3]"
    by (simp_all add: upt_rec)
  note inst = scrapers_return_partial_results [OF k, of failing_apps "\<lambda>page. mock_app_table"
      failing_clients "''17''" "\<lambda>page. mock_client_table"]
  from inst a have "get_app_list failing_apps
      = (Inr (concat (map (\<lambda>page. app_rows mock_app_table) [1 ..< 3])), [1 ..< Suc 3])"
    by blast
  moreover from inst c have "get_client_list failing_clients ''17''
      = (Inr (concat (map (\<lambda>page. client_data mock_client_table) [1 ..< 3])), [1 ..< Suc 3])"
    by blast
  ultimately show ?thesis
    unfolding u mock_rows by simp
qed


end
